theory Spec2Isabelle
  imports Complex_Main "HOL-Library.Word" "HOL-Library.Sublist" "HOL-Library.Log_Nat"
begin

section \<open>JavaScript strings\<close>

text \<open>
  A JavaScript string is a sequence of 16-bit code units. ASCII literals are written
  \<open>js ''...''\<close>; code units outside ASCII are given by their number.
\<close>

type_synonym jschar = "16 word"
type_synonym jsstring = "jschar list"

definition js :: "string \<Rightarrow> jsstring" where
  "js s = map of_char s"

definition js_whitespace :: "jschar \<Rightarrow> bool" where
  "js_whitespace c =
     (c = 0x09 \<or> c = 0x0A \<or> c = 0x0B \<or> c = 0x0C \<or> c = 0x0D \<or> c = 0x20 \<or> c = 0xA0
      \<or> c = 0x1680 \<or> (0x2000 \<le> c \<and> c \<le> 0x200A) \<or> c = 0x2028 \<or> c = 0x2029
      \<or> c = 0x202F \<or> c = 0x205F \<or> c = 0x3000 \<or> c = 0xFEFF)"

text \<open>\<open>String.prototype.trim\<close>: white space and line terminators go from both ends.\<close>

definition trim :: "jsstring \<Rightarrow> jsstring" where
  "trim s = rev (dropWhile js_whitespace (rev (dropWhile js_whitespace s)))"

text \<open>\<open>Array.prototype.join\<close> on an array of strings.\<close>

fun join :: "jsstring \<Rightarrow> jsstring list \<Rightarrow> jsstring" where
  "join sep [] = []"
| "join sep [x] = x"
| "join sep (x # y # ys) = x @ sep @ join sep (y # ys)"

text \<open>The decimal digits of a non-negative integer, as template literals print it.\<close>

definition digit_char :: "nat \<Rightarrow> jschar" where
  "digit_char d = of_nat (48 + d)"

fun decimal :: "nat \<Rightarrow> jsstring" where
  "decimal n =
     (if n < 10 then [digit_char n]
      else decimal (n div 10) @ [digit_char (n mod 10)])"

declare decimal.simps [simp del]

text \<open>
  \<open>text.replace(/```json|```/g, '')\<close>: one scan from the left; at each position the first
  alternative that matches is deleted and the scan goes on behind it.
\<close>

fun replace_fences :: "jsstring \<Rightarrow> jsstring" where
  "replace_fences [] = []"
| "replace_fences (c # cs) =
     (if prefix (js ''```json'') (c # cs) then replace_fences (drop 6 cs)
      else if prefix (js ''```'') (c # cs) then replace_fences (drop 2 cs)
      else c # replace_fences cs)"

text \<open>
  \<open>text.match(/\{[\s\S]*\}/)\<close>: the match starts at the leftmost \<open>{\<close> from which it
  can succeed; \<open>[\s\S]*\<close> is greedy, so the match runs to the last \<open>}\<close> behind it.
  \<open>greedy_to_brace cs\<close> is the longest prefix of \<open>cs\<close> that ends with \<open>}\<close>.
\<close>

fun greedy_to_brace :: "jsstring \<Rightarrow> jsstring option" where
  "greedy_to_brace [] = None"
| "greedy_to_brace (c # cs) =
     (case greedy_to_brace cs of
        Some m \<Rightarrow> Some (c # m)
      | None \<Rightarrow> if c = 0x7D then Some [c] else None)"

fun match_braces :: "jsstring \<Rightarrow> jsstring option" where
  "match_braces [] = None"
| "match_braces (c # cs) =
     (if c = 0x7B then
        (case greedy_to_brace cs of
           Some m \<Rightarrow> Some (c # m)
         | None \<Rightarrow> match_braces cs)
      else match_braces cs)"

text \<open>\<open>Buffer.prototype.toString('base64')\<close>.\<close>

type_synonym bytes = "8 word list"



section \<open>JSON values and \<open>JSON.parse\<close>\<close>

text \<open>
  \<open>JSON.parse\<close> belongs to the language, not to the repository; it is modelled after the
  JSON grammar of ECMAScript and after the values that Node.js gives. A number is the
  binary64 number nearest to the value of its literal: \<open>JNumber q\<close> is the finite number
  \<open>q\<close> (other than \<open>-0\<close>), and \<open>-0\<close>, \<open>Infinity\<close> and \<open>-Infinity\<close> have constructors of
  their own. An object lists first the members whose keys are array indices, by
  ascending index, and then the other members in the order in which their keys first
  appear; a key that comes again replaces the value of the first.
\<close>

datatype json =
    JNull
  | JBool bool
  | JNumber rat
  | JNegativeZero
  | JInfinity
  | JNegativeInfinity
  | JString jsstring
  | JArray "json list"
  | JObject "(jsstring \<times> json) list"

definition json_ws :: "jschar \<Rightarrow> bool" where
  "json_ws c = (c = 0x20 \<or> c = 0x09 \<or> c = 0x0A \<or> c = 0x0D)"

definition skip_ws :: "jsstring \<Rightarrow> jsstring" where
  "skip_ws cs = dropWhile json_ws cs"

definition hex_val :: "jschar \<Rightarrow> jschar option" where
  "hex_val c =
     (if 0x30 \<le> c \<and> c \<le> 0x39 then Some (c - 0x30)
      else if 0x41 \<le> c \<and> c \<le> 0x46 then Some (c - 0x37)
      else if 0x61 \<le> c \<and> c \<le> 0x66 then Some (c - 0x57)
      else None)"

definition unescape :: "jschar \<Rightarrow> jschar option" where
  "unescape e =
     (if e = 0x22 then Some 0x22
      else if e = 0x5C then Some 0x5C
      else if e = 0x2F then Some 0x2F
      else if e = 0x62 then Some 0x08
      else if e = 0x66 then Some 0x0C
      else if e = 0x6E then Some 0x0A
      else if e = 0x72 then Some 0x0D
      else if e = 0x74 then Some 0x09
      else None)"

definition unicode_escape :: "jsstring \<Rightarrow> (jschar \<times> jsstring) option" where
  "unicode_escape cs =
     (case cs of
        h1 # h2 # h3 # h4 # r \<Rightarrow>
          (case (hex_val h1, hex_val h2, hex_val h3, hex_val h4) of
             (Some a, Some b, Some c, Some d) \<Rightarrow>
               Some (a * 0x1000 + b * 0x100 + c * 0x10 + d, r)
           | _ \<Rightarrow> None)
      | _ \<Rightarrow> None)"

fun parse_string :: "jsstring \<Rightarrow> (jsstring \<times> jsstring) option" where
  "parse_string [] = None"
| "parse_string (c # cs) =
     (if c = 0x22 then Some ([], cs)
      else if c = 0x5C then
        (case cs of
           [] \<Rightarrow> None
         | e # es \<Rightarrow>
             if e = 0x75 then
               (case es of
                  h1 # h2 # h3 # h4 # r \<Rightarrow>
                    (case unicode_escape [h1, h2, h3, h4] of
                       None \<Rightarrow> None
                     | Some (u, _) \<Rightarrow>
                         (case parse_string r of
                            None \<Rightarrow> None
                          | Some (s, r') \<Rightarrow> Some (u # s, r')))
                | _ \<Rightarrow> None)
             else
               (case unescape e of
                  None \<Rightarrow> None
                | Some u \<Rightarrow>
                    (case parse_string es of
                       None \<Rightarrow> None
                     | Some (s, r') \<Rightarrow> Some (u # s, r'))))
      else if c < 0x20 then None
      else
        (case parse_string cs of
           None \<Rightarrow> None
         | Some (s, r') \<Rightarrow> Some (c # s, r')))"

definition is_digit :: "jschar \<Rightarrow> bool" where
  "is_digit c = (0x30 \<le> c \<and> c \<le> 0x39)"

definition digits_val :: "jsstring \<Rightarrow> int" where
  "digits_val ds = foldl (\<lambda>n c. 10 * n + uint (c - 0x30)) 0 ds"

definition int_part :: "jsstring \<Rightarrow> (jsstring \<times> jsstring) option" where
  "int_part cs =
     (case cs of
        [] \<Rightarrow> None
      | c # r \<Rightarrow>
          if c = 0x30 then Some ([c], r)
          else if is_digit c then Some (takeWhile is_digit cs, dropWhile is_digit cs)
          else None)"

definition frac_part :: "jsstring \<Rightarrow> (jsstring \<times> jsstring) option" where
  "frac_part cs =
     (case cs of
        [] \<Rightarrow> Some ([], cs)
      | c # r \<Rightarrow>
          if c = 0x2E then
            (if takeWhile is_digit r = [] then None
             else Some (takeWhile is_digit r, dropWhile is_digit r))
          else Some ([], cs))"

definition exp_sign :: "jsstring \<Rightarrow> int \<times> jsstring" where
  "exp_sign cs =
     (case cs of
        [] \<Rightarrow> (1, cs)
      | s # r \<Rightarrow> if s = 0x2B then (1, r) else if s = 0x2D then (- 1, r) else (1, cs))"

definition exp_part :: "jsstring \<Rightarrow> (int \<times> jsstring) option" where
  "exp_part cs =
     (case cs of
        [] \<Rightarrow> Some (0, cs)
      | c # r \<Rightarrow>
          if c = 0x65 \<or> c = 0x45 then
            (case exp_sign r of
               (sg, r') \<Rightarrow>
                 if takeWhile is_digit r' = [] then None
                 else Some (sg * digits_val (takeWhile is_digit r'),
                            dropWhile is_digit r'))
          else Some (0, cs))"

definition scale10 :: "rat \<Rightarrow> int \<Rightarrow> rat" where
  "scale10 x k = (if 0 \<le> k then x * 10 ^ nat k else x / 10 ^ nat (- k))"

definition parse_number :: "jsstring \<Rightarrow> (rat \<times> jsstring) option" where
  "parse_number cs =
     (case (case cs of
              [] \<Rightarrow> (False, cs)
            | c # r \<Rightarrow> if c = 0x2D then (True, r) else (False, cs)) of
        (neg, r0) \<Rightarrow>
          (case int_part r0 of
             None \<Rightarrow> None
           | Some (ip, r1) \<Rightarrow>
               (case frac_part r1 of
                  None \<Rightarrow> None
                | Some (fp, r2) \<Rightarrow>
                    (case exp_part r2 of
                       None \<Rightarrow> None
                     | Some (e, r3) \<Rightarrow>
                         Some ((if neg then - 1 else 1)
                                 * scale10 (of_int (digits_val (ip @ fp)))
                                     (e - int (length fp)),
                               r3)))))"

text \<open>
  The number that JavaScript keeps for a literal. For \<open>x > 0\<close>, \<open>floor_log2 x\<close> is the
  \<open>k\<close> with \<open>2^k \<le> x < 2^(k+1)\<close>. \<open>binary64 x\<close> is the binary64 number nearest to
  \<open>x \<ge> 0\<close>: a multiple \<open>m * 2^e\<close> of the spacing \<open>2^e\<close> of the binary64 numbers around
  \<open>x\<close> (53 significant bits, and \<open>2^-1074\<close> for the subnormal numbers), \<open>m\<close> being
  \<open>x / 2^e\<close> rounded to the nearest integer, to the even one of two that are equally
  near. There is none (\<open>None\<close>) when that multiple is \<open>2^1024\<close> or more: the number is then
  \<open>Infinity\<close>.
\<close>

definition floor_log2 :: "rat \<Rightarrow> int" where
  "floor_log2 x =
     (case quotient_of x of
        (a, b) \<Rightarrow> let k = bitlen a - bitlen b in if 2 powi k \<le> x then k else k - 1)"

definition round_half_even :: "rat \<Rightarrow> int" where
  "round_half_even x =
     (let n = \<lfloor>x\<rfloor>; r = x - of_int n
      in if r < 1 / 2 then n else if 1 / 2 < r then n + 1 else if even n then n else n + 1)"

definition binary64 :: "rat \<Rightarrow> rat option" where
  "binary64 x =
     (if x = 0 then Some 0
      else
        let e = max (floor_log2 x - 52) (- 1074);
            m = round_half_even (x / 2 powi e)
        in if 971 < e \<or> (e = 971 \<and> m = 2 ^ 53) then None else Some (of_int m * 2 powi e))"

text \<open>
  The value of a number literal: \<open>negative\<close> says that the literal begins with \<open>-\<close>, and
  \<open>x\<close> is what it denotes.
\<close>

definition number_value :: "bool \<Rightarrow> rat \<Rightarrow> json" where
  "number_value negative x =
     (case binary64 \<bar>x\<bar> of
        None \<Rightarrow> if negative then JNegativeInfinity else JInfinity
      | Some y \<Rightarrow>
          if negative then (if y = 0 then JNegativeZero else JNumber (- y)) else JNumber y)"

text \<open>
  Setting the member \<open>k\<close> of an object. An array index is the decimal numeral, without
  leading zeros, of an integer below \<open>2^32 - 1\<close>.
\<close>

definition is_array_index :: "jsstring \<Rightarrow> bool" where
  "is_array_index k =
     (k \<noteq> [] \<and> list_all is_digit k \<and> (k = [0x30] \<or> hd k \<noteq> 0x30)
      \<and> digits_val k < 4294967295)"

fun obj_replace :: "(jsstring \<times> json) list \<Rightarrow> jsstring \<Rightarrow> json \<Rightarrow> (jsstring \<times> json) list" where
  "obj_replace [] k v = []"
| "obj_replace ((k', v') # kvs) k v =
     (if k' = k then (k, v) # kvs else (k', v') # obj_replace kvs k v)"

fun obj_insert_index :: "(jsstring \<times> json) list \<Rightarrow> jsstring \<Rightarrow> json \<Rightarrow> (jsstring \<times> json) list" where
  "obj_insert_index [] k v = [(k, v)]"
| "obj_insert_index ((k', v') # kvs) k v =
     (if is_array_index k' \<and> digits_val k' < digits_val k
      then (k', v') # obj_insert_index kvs k v
      else (k, v) # (k', v') # kvs)"

definition obj_set :: "(jsstring \<times> json) list \<Rightarrow> jsstring \<Rightarrow> json \<Rightarrow> (jsstring \<times> json) list" where
  "obj_set obj k v =
     (if k \<in> set (map fst obj) then obj_replace obj k v
      else if is_array_index k then obj_insert_index obj k v
      else obj @ [(k, v)])"

definition obj_of_members :: "(jsstring \<times> json) list \<Rightarrow> (jsstring \<times> json) list" where
  "obj_of_members kvs = foldl (\<lambda>obj (k, v). obj_set obj k v) [] kvs"

text \<open>
  The parser proper: \<open>parse_value\<close> reads one value from the front of the text and
  returns it with the rest of the text; \<open>parse_members\<close> and \<open>parse_elements\<close> read what
  stands behind the opening bracket of a non-empty object or array, up to and including
  the closing bracket. The two comparisons of lengths serve the termination proof; they
  never fail (\<open>parse_members_guard\<close> and \<open>parse_elements_guard\<close> below).
\<close>

lemma skip_ws_length: "length (skip_ws cs) \<le> length cs"
  by (simp add: skip_ws_def length_dropWhile_le)

lemma skip_ws_Cons_length: "skip_ws cs = d # ds \<Longrightarrow> length ds < length cs"
  using skip_ws_length [of cs] by simp

lemma parse_string_length: "parse_string cs = Some (s, r) \<Longrightarrow> length r < length cs"
proof (induction cs arbitrary: s r rule: parse_string.induct)
  case 1
  then show ?case by simp
next
  case (2 c cs)
  then show ?case
    by (fastforce split: if_splits list.splits option.splits prod.splits)
qed

function parse_value :: "jsstring \<Rightarrow> (json \<times> jsstring) option"
  and parse_members :: "jsstring \<Rightarrow> ((jsstring \<times> json) list \<times> jsstring) option"
  and parse_elements :: "jsstring \<Rightarrow> (json list \<times> jsstring) option"
where
  "parse_value [] = None"
| "parse_value (c # cs) =
     (if c = 0x7B then
        (case skip_ws cs of
           [] \<Rightarrow> None
         | d # ds \<Rightarrow>
             if d = 0x7D then Some (JObject [], ds)
             else
               (case parse_members (d # ds) of
                  None \<Rightarrow> None
                | Some (kvs, r) \<Rightarrow> Some (JObject (obj_of_members kvs), r)))
      else if c = 0x5B then
        (case skip_ws cs of
           [] \<Rightarrow> None
         | d # ds \<Rightarrow>
             if d = 0x5D then Some (JArray [], ds)
             else
               (case parse_elements (d # ds) of
                  None \<Rightarrow> None
                | Some (vs, r) \<Rightarrow> Some (JArray vs, r)))
      else if c = 0x22 then
        (case parse_string cs of
           None \<Rightarrow> None
         | Some (s, r) \<Rightarrow> Some (JString s, r))
      else if prefix (js ''true'') (c # cs) then Some (JBool True, drop 3 cs)
      else if prefix (js ''false'') (c # cs) then Some (JBool False, drop 4 cs)
      else if prefix (js ''null'') (c # cs) then Some (JNull, drop 3 cs)
      else
        (case parse_number (c # cs) of
           None \<Rightarrow> None
         | Some (x, r) \<Rightarrow> Some (number_value (c = 0x2D) x, r)))"
| "parse_members [] = None"
| "parse_members (q # cs) =
     (if q \<noteq> 0x22 then None
      else
        (case parse_string cs of
           None \<Rightarrow> None
         | Some (k, r1) \<Rightarrow>
             (case skip_ws r1 of
                [] \<Rightarrow> None
              | colon # r2 \<Rightarrow>
                  if colon \<noteq> 0x3A then None
                  else
                    (case parse_value (skip_ws r2) of
                       None \<Rightarrow> None
                     | Some (v, r3) \<Rightarrow>
                         (case skip_ws r3 of
                            [] \<Rightarrow> None
                          | e # r4 \<Rightarrow>
                              if e = 0x7D then Some ([(k, v)], r4)
                              else if e = 0x2C \<and> length r4 < length cs then
                                (case parse_members (skip_ws r4) of
                                   None \<Rightarrow> None
                                 | Some (kvs, r5) \<Rightarrow> Some ((k, v) # kvs, r5))
                              else None)))))"
| "parse_elements cs =
     (case parse_value cs of
        None \<Rightarrow> None
      | Some (v, r1) \<Rightarrow>
          (case skip_ws r1 of
             [] \<Rightarrow> None
           | e # r2 \<Rightarrow>
               if e = 0x5D then Some ([v], r2)
               else if e = 0x2C \<and> length r2 < length cs then
                 (case parse_elements (skip_ws r2) of
                    None \<Rightarrow> None
                  | Some (vs, r3) \<Rightarrow> Some (v # vs, r3))
               else None))"
  by pat_completeness auto

termination
proof (relation "measure (\<lambda>x. case x of
                   Inl cs \<Rightarrow> 2 * length cs
                 | Inr (Inl cs) \<Rightarrow> 2 * length cs
                 | Inr (Inr cs) \<Rightarrow> 2 * length cs + 1)", goal_cases)
  case 1
  show ?case by simp
next
  case (2 c cs d ds)
  then show ?case using skip_ws_Cons_length [of cs d ds] by simp
next
  case (3 c cs d ds)
  then show ?case using skip_ws_Cons_length [of cs d ds] by simp
next
  case (4 q cs x2 k r1 colon r2)
  then show ?case
    using parse_string_length [of cs k r1] skip_ws_Cons_length [of r1 colon r2]
      skip_ws_length [of r2]
    by simp
next
  case (5 q cs x2 k r1 colon r2 x2a v r3 e r4)
  then show ?case using skip_ws_length [of r4] by simp
next
  case (6 cs)
  show ?case by simp
next
  case (7 cs x2 v r1 e r2)
  then show ?case using skip_ws_length [of r2] by simp
qed

definition JSON_parse :: "jsstring \<Rightarrow> json option" where
  "JSON_parse text =
     (case parse_value (skip_ws text) of
        None \<Rightarrow> None
      | Some (v, r) \<Rightarrow> if skip_ws r = [] then Some v else None)"

text \<open>
  Replies are described by the value they carry: \<open>json_text v\<close> is the compact JSON text
  of \<open>v\<close> (no white space, no escapes), meant for the values that need no escape:
  \<open>simple v\<close> says that the strings and keys of \<open>v\<close> consist of characters that stand
  for themselves in a JSON string (and are no backtick), that the keys of an object are
  distinct, and that the numbers are integers. \<open>stored v\<close> is what JavaScript keeps of
  such a value: the numbers rounded, the members of every object in the order of the
  language. It is \<open>v\<close> itself when \<open>v\<close> is \<open>exact\<close>: no integer beyond \<open>2^53\<close> in
  magnitude, no array index among the keys.
\<close>

definition plain :: "jsstring \<Rightarrow> bool" where
  "plain s = (\<forall>c\<in>set s. 0x20 \<le> c \<and> c \<noteq> 0x22 \<and> c \<noteq> 0x5C \<and> c \<noteq> 0x60)"

fun simple :: "json \<Rightarrow> bool" where
  "simple JNull = True"
| "simple (JBool b) = True"
| "simple (JNumber x) = (x = of_int \<lfloor>x\<rfloor>)"
| "simple JNegativeZero = False"
| "simple JInfinity = False"
| "simple JNegativeInfinity = False"
| "simple (JString s) = plain s"
| "simple (JArray vs) = (\<forall>v\<in>set vs. simple v)"
| "simple (JObject kvs) =
     (distinct (map fst kvs) \<and> (\<forall>kv\<in>set kvs. plain (fst kv) \<and> simple (snd kv)))"

fun json_text :: "json \<Rightarrow> jsstring" where
  "json_text JNull = js ''null''"
| "json_text (JBool b) = (if b then js ''true'' else js ''false'')"
| "json_text (JNumber x) =
     (if x < 0 then 0x2D # decimal (nat (- \<lfloor>x\<rfloor>)) else decimal (nat \<lfloor>x\<rfloor>))"
| "json_text JNegativeZero = js ''-0''"
| "json_text JInfinity = js ''1e400''"
| "json_text JNegativeInfinity = js ''-1e400''"
| "json_text (JString s) = 0x22 # s @ [0x22]"
| "json_text (JArray vs) = 0x5B # join [0x2C] (map json_text vs) @ [0x5D]"
| "json_text (JObject kvs) =
     0x7B # join [0x2C] (map (\<lambda>kv. 0x22 # fst kv @ 0x22 # 0x3A # json_text (snd kv)) kvs)
       @ [0x7D]"

fun stored :: "json \<Rightarrow> json" where
  "stored (JNumber x) = number_value (x < 0) x"
| "stored (JArray vs) = JArray (map stored vs)"
| "stored (JObject kvs) = JObject (obj_of_members (map (\<lambda>kv. (fst kv, stored (snd kv))) kvs))"
| "stored v = v"

fun exact :: "json \<Rightarrow> bool" where
  "exact (JNumber x) = (\<bar>x\<bar> \<le> 2 ^ 53)"
| "exact (JArray vs) = list_all exact vs"
| "exact (JObject kvs) = list_all (\<lambda>kv. \<not> is_array_index (fst kv) \<and> exact (snd kv)) kvs"
| "exact v = True"

text \<open>The text of one member of an object, and what may stand behind a value.\<close>

definition member_text :: "jsstring \<times> json \<Rightarrow> jsstring" where
  "member_text kv = 0x22 # fst kv @ 0x22 # 0x3A # json_text (snd kv)"

definition follow :: "jsstring \<Rightarrow> bool" where
  "follow r = (case r of [] \<Rightarrow> True | c # _ \<Rightarrow> c = 0x2C \<or> c = 0x5D \<or> c = 0x7D)"

text \<open>
  Reading the property \<open>k\<close> of a parsed record: \<open>None\<close> stands for \<open>undefined\<close>.
\<close>

definition get_field :: "json \<Rightarrow> jsstring \<Rightarrow> json option" where
  "get_field v k = (case v of JObject kvs \<Rightarrow> map_of kvs k | _ \<Rightarrow> None)"

section \<open>The category taxonomy\<close>

definition CATEGORIAS_DESPESAS :: "jsstring list" where
  "CATEGORIAS_DESPESAS =
     [js ''INSUMOS AGR'' @ [0xCD] @ js ''COLAS'',
      js ''MANUTEN'' @ [0xC7, 0xC3] @ js ''O E OPERA'' @ [0xC7, 0xC3] @ js ''O'',
      js ''RECURSOS HUMANOS'',
      js ''SERVI'' @ [0xC7] @ js ''OS OPERACIONAIS'',
      js ''INFRAESTRUTURA E UTILIDADES'',
      js ''ADMINISTRATIVAS'',
      js ''SEGUROS E PROTE'' @ [0xC7, 0xC3] @ js ''O'',
      js ''IMPOSTOS E TAXAS'',
      js ''INVESTIMENTOS'']"

text \<open>
  \<open>getCategoryExamples\<close> reads \<open>examples[category]\<close> on an object literal. The read
  finds the literal's own properties first and then those the literal inherits from
  \<open>Object.prototype\<close>, all of which are truthy (functions, and the prototype object
  itself for \<open>__proto__\<close>), so \<open>|| []\<close> does not replace them.
\<close>

definition examples :: "(jsstring \<times> jsstring list) list" where
  "examples =
     [(js ''INSUMOS AGR'' @ [0xCD] @ js ''COLAS'',
       [js ''Sementes'', js ''Fertilizantes'', js ''Defensivos Agr'' @ [0xED] @ js ''colas'',
        js ''Corretivos'']),
      (js ''MANUTEN'' @ [0xC7, 0xC3] @ js ''O E OPERA'' @ [0xC7, 0xC3] @ js ''O'',
       [js ''Combust'' @ [0xED] @ js ''veis'', js ''Lubrificantes'', js ''Pe'' @ [0xE7] @ js ''as'',
        js ''Manuten'' @ [0xE7, 0xE3] @ js ''o de M'' @ [0xE1] @ js ''quinas'']),
      (js ''RECURSOS HUMANOS'',
       [js ''M'' @ [0xE3] @ js ''o de Obra Tempor'' @ [0xE1] @ js ''ria'',
        js ''Sal'' @ [0xE1] @ js ''rios e Encargos'']),
      (js ''SERVI'' @ [0xC7] @ js ''OS OPERACIONAIS'',
       [js ''Frete'', js ''Transporte'', js ''Colheita Terceirizada'']),
      (js ''INFRAESTRUTURA E UTILIDADES'',
       [js ''Energia El'' @ [0xE9] @ js ''trica'', js ''Arrendamento'',
        js ''Constru'' @ [0xE7, 0xF5] @ js ''es'']),
      (js ''ADMINISTRATIVAS'',
       [js ''Honor'' @ [0xE1] @ js ''rios Cont'' @ [0xE1] @ js ''beis'',
        js ''Despesas Banc'' @ [0xE1] @ js ''rias'']),
      (js ''SEGUROS E PROTE'' @ [0xC7, 0xC3] @ js ''O'',
       [js ''Seguro Agr'' @ [0xED] @ js ''cola'', js ''Seguro de Ativos'']),
      (js ''IMPOSTOS E TAXAS'',
       [js ''ITR'', js ''IPTU'', js ''IPVA'', js ''INCRA-CCIR'']),
      (js ''INVESTIMENTOS'',
       [js ''M'' @ [0xE1] @ js ''quinas'', js ''Implementos'', js ''Ve'' @ [0xED] @ js ''culos'',
        js ''Im'' @ [0xF3] @ js ''veis''])]"

definition Object_prototype :: "jsstring list" where
  "Object_prototype =
     [js ''constructor'', js ''__defineGetter__'', js ''__defineSetter__'',
      js ''hasOwnProperty'', js ''__lookupGetter__'', js ''__lookupSetter__'',
      js ''isPrototypeOf'', js ''propertyIsEnumerable'', js ''toString'', js ''valueOf'',
      js ''__proto__'', js ''toLocaleString'']"

datatype property_value =
    StringArray "jsstring list"
  | Inherited jsstring

definition getCategoryExamples :: "jsstring \<Rightarrow> property_value" where
  "getCategoryExamples category =
     (case map_of examples category of
        Some xs \<Rightarrow> StringArray xs
      | None \<Rightarrow>
          if category \<in> set Object_prototype then Inherited category
          else StringArray [])"

text \<open>The handler of \<open>GET /categories\<close>.\<close>

record category_entry =
  id :: nat
  name :: jsstring
  examples_of :: property_value

record categories_response =
  success :: bool
  categories :: "category_entry list"

definition get_categories :: categories_response where
  "get_categories =
     \<lparr>success = True,
      categories =
        map (\<lambda>(index, cat).
               \<lparr>id = index + 1, name = cat, examples_of = getCategoryExamples cat\<rparr>)
            (enumerate 0 CATEGORIAS_DESPESAS)\<rparr>"

section \<open>The extraction requests\<close>

text \<open>
  The numbered taxonomy lines of both prompts:
  \<open>CATEGORIAS_DESPESAS.map((cat, index) => `${index + 1}. ${cat}`).join('\n')\<close>.
\<close>

definition category_lines :: jsstring where
  "category_lines =
     join (js ''\<newline>'')
       (map (\<lambda>(index, cat). decimal (index + 1) @ js ''. '' @ cat)
          (enumerate 0 CATEGORIAS_DESPESAS))"

definition prompt_text_intro :: jsstring where
  "prompt_text_intro =
     js ''Voc'' @ [0xEA] @ js '' '' @ [0xE9] @ js '' um especialista em an'' @ [0xE1] @ js ''lise de notas fiscais brasileiras. Analise o texto abaixo extra'' @ [0xED] @ js ''do de uma nota fiscal e extraia EXATAMENTE os seguintes dados em formato JSON v'' @ [0xE1] @ js ''lido.\<newline>'' @
     js ''\<newline>'' @
     js ''TEXTO DA NOTA FISCAL:\<newline>''"

definition prompt_text_instructions :: jsstring where
  "prompt_text_instructions =
     js ''\<newline>'' @
     js ''\<newline>'' @
     js ''INSTRU'' @ [0xC7, 0xD5] @ js ''ES IMPORTANTES:\<newline>'' @
     js ''- Use '' @ [0x27] @ js ''null'' @ [0x27] @ js '' se a informa'' @ [0xE7, 0xE3] @ js ''o n'' @ [0xE3] @ js ''o for encontrada\<newline>'' @
     js ''- Para datas, use formato YYYY-MM-DD\<newline>'' @
     js ''- Para valores monet'' @ [0xE1] @ js ''rios, use apenas n'' @ [0xFA] @ js ''meros (sem R$, pontos ou v'' @ [0xED] @ js ''rgulas)\<newline>'' @
     js ''- Para CNPJ/CPF, mantenha apenas n'' @ [0xFA] @ js ''meros\<newline>'' @
     js ''- Para classifica'' @ [0xE7, 0xE3] @ js ''o de despesa, analise os produtos/servi'' @ [0xE7] @ js ''os e escolha UMA categoria mais adequada\<newline>'' @
     js ''- Se n'' @ [0xE3] @ js ''o conseguir identificar uma data espec'' @ [0xED] @ js ''fica, use '' @ [0x27] @ js ''null'' @ [0x27] @ js ''\<newline>'' @
     js ''- Para parcelas, se n'' @ [0xE3] @ js ''o especificado, considere 1 parcela\<newline>'' @
     js ''\<newline>'' @
     js ''CATEGORIAS DE DESPESAS DISPON'' @ [0xCD] @ js ''VEIS:\<newline>''"

definition prompt_text_format :: jsstring where
  "prompt_text_format =
     js ''\<newline>'' @
     js ''\<newline>'' @
     js ''FORMATO DE RESPOSTA (JSON):\<newline>'' @
     js ''{\<newline>'' @
     js ''    \"fornecedor\": {\<newline>'' @
     js ''        \"razao_social\": \"string ou null\",\<newline>'' @
     js ''        \"fantasia\": \"string ou null\", \<newline>'' @
     js ''        \"cnpj\": \"apenas n'' @ [0xFA] @ js ''meros ou null\"\<newline>'' @
     js ''    },\<newline>'' @
     js ''    \"faturado\": {\<newline>'' @
     js ''        \"nome_completo\": \"string ou null\",\<newline>'' @
     js ''        \"cpf\": \"apenas n'' @ [0xFA] @ js ''meros ou null\"\<newline>'' @
     js ''    },\<newline>'' @
     js ''    \"numero_nota_fiscal\": \"string ou null\",\<newline>'' @
     js ''    \"data_emissao\": \"YYYY-MM-DD ou null\",\<newline>'' @
     js ''    \"descricao_produtos\": \"descri'' @ [0xE7, 0xE3] @ js ''o detalhada dos produtos/servi'' @ [0xE7] @ js ''os ou null\",\<newline>'' @
     js ''    \"quantidade_parcelas\": 1,\<newline>'' @
     js ''    \"data_vencimento\": \"YYYY-MM-DD ou null\", \<newline>'' @
     js ''    \"valor_total\": \"n'' @ [0xFA] @ js ''mero ou null\",\<newline>'' @
     js ''    \"classificacao_despesa\": \"uma das categorias acima ou null\"\<newline>'' @
     js ''}\<newline>'' @
     js ''\<newline>'' @
     js ''RESPOSTA: Retorne APENAS o JSON v'' @ [0xE1] @ js ''lido, sem coment'' @ [0xE1] @ js ''rios, explica'' @ [0xE7, 0xF5] @ js ''es ou formata'' @ [0xE7, 0xE3] @ js ''o markdown.''"



text \<open>The prompt of the text variant, around the extracted text.\<close>

definition prompt_text :: "jsstring \<Rightarrow> jsstring" where
  "prompt_text extractedText =
     prompt_text_intro @ extractedText @ prompt_text_instructions @ category_lines
       @ prompt_text_format"


section \<open>The collaborators\<close>

text \<open>
  What the code calls and does not contain is a parameter: the environment variable, the
  PDF library, the inference backend, the text of the message of a \<open>SyntaxError\<close> (which
  depends on the engine) and the clock readings that the responses print. A collaborator
  that throws returns the error. \<open>getPage pdf n\<close> stands for \<open>pdf.getPage(n)\<close> followed by
  \<open>getTextContent()\<close> and gives the \<open>str\<close> of the text items of page \<open>n\<close>;
  \<open>generateContent sv model parts\<close> stands for the call on the model of that name,
  followed by \<open>response.text()\<close>.
\<close>

datatype error =
    SyntaxError jsstring
  | Error jsstring

datatype part =
    Text jsstring
  | InlineData jsstring jsstring

record pdf_document =
  numPages :: nat
  getPage :: "nat \<Rightarrow> error + jsstring list"

record services =
  GEMINI_API_KEY :: "jsstring option"
  getDocument :: "bytes \<Rightarrow> error + pdf_document"
  generateContent :: "jsstring \<Rightarrow> part list \<Rightarrow> error + jsstring"
  syntax_error_message :: "jsstring \<Rightarrow> jsstring"
  totalTime :: jsstring
  timestamp :: jsstring

fun message :: "services \<Rightarrow> error \<Rightarrow> jsstring" where
  "message sv (SyntaxError text) = syntax_error_message sv text"
| "message sv (Error m) = m"

section \<open>The response parser\<close>

text \<open>
  The statements between the backend's reply and the returned record are the same in
  \<open>processWithGemini\<close> and \<open>processPDFWithGemini\<close>: delete the fence markers, trim, take
  the match of the regular expression when there is one, and hand the text to
  \<open>JSON.parse\<close>, whose value is returned as it is. \<open>json_candidate\<close> is the text handed to
  \<open>JSON.parse\<close>, and \<open>parse_response_text\<close> these statements as a whole; the \<open>catch\<close>
  around them is in \<open>processWithGemini\<close> and \<open>processPDFWithGemini\<close>. Of the two copies
  of \<open>processPDFWithGemini\<close> the one of the agent module is modelled; the other differs
  in the name of the model and in one sentence of the prompt.
\<close>

definition json_candidate :: "jsstring \<Rightarrow> jsstring" where
  "json_candidate reply =
     (let text = trim (replace_fences reply)
      in case match_braces text of
           Some jsonMatch \<Rightarrow> jsonMatch
         | None \<Rightarrow> text)"

definition parse_response_text :: "jsstring \<Rightarrow> error + json" where
  "parse_response_text reply =
     (let text = json_candidate reply
      in case JSON_parse text of
           None \<Rightarrow> Inl (SyntaxError text)
         | Some extractedData \<Rightarrow> Inr extractedData)"

definition processWithGemini :: "services \<Rightarrow> jsstring \<Rightarrow> error + json" where
  "processWithGemini sv extractedText =
     (case (case generateContent sv (js ''gemini-1.5-flash'') [Text (prompt_text extractedText)] of
              Inl e \<Rightarrow> Inl e
            | Inr reply \<Rightarrow> parse_response_text reply) of
        Inl e \<Rightarrow> Inl (Error (js ''Falha no processamento IA: '' @ message sv e))
      | Inr extractedData \<Rightarrow> Inr extractedData)"



section \<open>The text variant: text extraction and the upload handler\<close>

function extract_pages :: "pdf_document \<Rightarrow> nat \<Rightarrow> jsstring \<Rightarrow> error + jsstring" where
  "extract_pages pdf pageNum fullText =
     (if pageNum \<le> min (numPages pdf) 3 then
        (case getPage pdf pageNum of
           Inl e \<Rightarrow> Inl e
         | Inr items \<Rightarrow>
             extract_pages pdf (pageNum + 1)
               (fullText @ join (js '' '') items @ js ''\<newline>\<newline>''))
      else Inr fullText)"
  by pat_completeness auto

termination
  by (relation "measure (\<lambda>(pdf, pageNum, fullText). 4 - pageNum)") auto

declare extract_pages.simps [simp del]

definition extractTextFromPDF :: "services \<Rightarrow> bytes \<Rightarrow> error + jsstring" where
  "extractTextFromPDF sv pdfBuffer =
     (case (case getDocument sv pdfBuffer of
              Inl e \<Rightarrow> Inl e
            | Inr pdf \<Rightarrow>
                (case extract_pages pdf 1 [] of
                   Inl e \<Rightarrow> Inl e
                 | Inr fullText \<Rightarrow> Inr (trim fullText))) of
        Inl e \<Rightarrow>
          Inl (Error (js ''Falha na extra'' @ [0xE7, 0xE3] @ js ''o de texto do PDF: ''
                       @ message sv e))
      | Inr text \<Rightarrow> Inr text)"

record uploaded_file =
  originalname :: jsstring
  file_size :: nat
  buffer :: bytes

record response =
  status :: nat
  body :: json

text \<open>
  The handler of \<open>POST /extract-data\<close> of the text variant. \<open>file\<close> is \<open>req.file\<close>, absent
  when the request carried no upload; an environment variable is falsy when it is unset
  or empty.
\<close>

definition post_extract_data :: "services \<Rightarrow> uploaded_file option \<Rightarrow> response" where
  "post_extract_data sv file =
     (case file of
        None \<Rightarrow>
          \<lparr>status = 400,
           body = JObject
             [(js ''success'', JBool False),
              (js ''error'', JString (js ''Nenhum arquivo PDF foi enviado.''))]\<rparr>
      | Some f \<Rightarrow>
          if GEMINI_API_KEY sv = None \<or> GEMINI_API_KEY sv = Some [] then
            \<lparr>status = 500,
             body = JObject
               [(js ''success'', JBool False),
                (js ''error'',
                 JString (js ''Chave da API do Google Gemini n'' @ [0xE3] @ js ''o configurada.'')),
                (js ''instructions'',
                 JString (js ''Adicione GEMINI_API_KEY=sua_chave no arquivo .env''))]\<rparr>
          else
            (case (case extractTextFromPDF sv (buffer f) of
                     Inl e \<Rightarrow> Inl e
                   | Inr extractedText \<Rightarrow>
                       if extractedText = [] \<or> length extractedText < 50 then
                         Inl (Error
                           (js ''Texto extra'' @ [0xED] @ js ''do do PDF '' @ [0xE9]
                            @ js '' muito curto ou vazio. Verifique se o PDF n'' @ [0xE3]
                            @ js ''o est'' @ [0xE1] @ js '' corrompido.''))
                       else
                         (case processWithGemini sv extractedText of
                            Inl e \<Rightarrow> Inl e
                          | Inr extractedData \<Rightarrow> Inr (extractedText, extractedData))) of
               Inl e \<Rightarrow>
                 \<lparr>status = 500,
                  body = JObject
                    [(js ''success'', JBool False),
                     (js ''error'', JString (js ''Erro ao processar o arquivo PDF.'')),
                     (js ''details'', JString (message sv e)),
                     (js ''processingTime'', JString (totalTime sv @ js ''s'')),
                     (js ''timestamp'', JString (timestamp sv))]\<rparr>
             | Inr (extractedText, extractedData) \<Rightarrow>
                 \<lparr>status = 200,
                  body = JObject
                    [(js ''success'', JBool True),
                     (js ''method'', JString (js ''pdf_text_extraction'')),
                     (js ''data'', extractedData),
                     (js ''metadata'', JObject
                        [(js ''filename'', JString (originalname f)),
                         (js ''fileSize'', JNumber (of_nat (file_size f))),
                         (js ''textLength'', JNumber (of_nat (length extractedText))),
                         (js ''processingTime'', JString (totalTime sv @ js ''s'')),
                         (js ''timestamp'', JString (timestamp sv))]),
                     (js ''debug'', JObject
                        [(js ''textPreview'',
                          JString (take 300 extractedText @ js ''...''))])]\<rparr>))"

section \<open>Stand-ins for the collaborators\<close>

text \<open>
  Concrete collaborators for the examples: a PDF document given by the text items of its
  pages, and services whose PDF library opens every buffer as that document and whose
  backend answers every request with the same reply.
\<close>

definition stub_pdf :: "jsstring list list \<Rightarrow> pdf_document" where
  "stub_pdf pages =
     \<lparr>numPages = length pages,
      getPage = (\<lambda>n. if 1 \<le> n \<and> n \<le> length pages then Inr (pages ! (n - 1))
                     else Inl (Error (js ''Invalid page request.'')))\<rparr>"

definition stub_services :: "jsstring option \<Rightarrow> pdf_document \<Rightarrow> jsstring \<Rightarrow> services" where
  "stub_services key pdf reply =
     \<lparr>GEMINI_API_KEY = key,
      getDocument = (\<lambda>pdfBuffer. Inr pdf),
      generateContent = (\<lambda>model parts. Inr reply),
      syntax_error_message = (\<lambda>text. js ''Unexpected token''),
      totalTime = js ''1.5'',
      timestamp = js ''2025-01-01T00:00:00.000Z''\<rparr>"

text \<open>A backend that answers one request and refuses every other.\<close>

definition stub_backend ::
  "jsstring \<Rightarrow> part list \<Rightarrow> jsstring \<Rightarrow> jsstring \<Rightarrow> part list \<Rightarrow> error + jsstring" where
  "stub_backend model parts reply =
     (\<lambda>model' parts'. if model' = model \<and> parts' = parts then Inr reply
                       else Inl (Error (js ''another request'')))"

section \<open>Facts about the string operations\<close>

lemma greedy_to_brace_none: "0x7D \<notin> set cs \<Longrightarrow> greedy_to_brace cs = None"
  by (induction cs) auto

lemma greedy_to_brace_last:
  "0x7D \<notin> set post \<Longrightarrow> greedy_to_brace (mid @ 0x7D # post) = Some (mid @ [0x7D])"
  by (induction mid) (auto simp: greedy_to_brace_none)

lemma match_braces_first_open:
  "0x7B \<notin> set pre \<Longrightarrow> match_braces (pre @ 0x7B # cs) = match_braces (0x7B # cs)"
  by (induction pre) auto

lemma match_braces_span:
  "0x7B \<notin> set pre \<Longrightarrow> 0x7D \<notin> set post \<Longrightarrow>
   match_braces (pre @ 0x7B # mid @ 0x7D # post) = Some (0x7B # mid @ [0x7D])"
  by (simp add: match_braces_first_open greedy_to_brace_last)

lemma match_braces_none_no_open: "0x7B \<notin> set cs \<Longrightarrow> match_braces cs = None"
  by (induction cs) auto






lemma set_replace_fences: "set (replace_fences s) \<subseteq> set s"
proof (induction s rule: replace_fences.induct)
  case 1
  then show ?case by simp
next
  case (2 c cs)
  have d: "set (drop 6 cs) \<subseteq> set cs" "set (drop 2 cs) \<subseteq> set cs"
    by (rule set_drop_subset)+
  show ?case
  proof (cases "prefix (js ''```json'') (c # cs)")
    case True
    with 2(1) d(1) show ?thesis by auto
  next
    case nj: False
    show ?thesis
    proof (cases "prefix (js ''```'') (c # cs)")
      case True
      with nj 2(2) d(2) show ?thesis by auto
    next
      case False
      with nj 2(3) show ?thesis by auto
    qed
  qed
qed

lemma set_trim: "set (trim s) \<subseteq> set s"
  by (auto simp: trim_def dest!: set_dropWhileD)



section \<open>Facts about \<open>JSON.parse\<close>\<close>

subsection \<open>Plain strings and decimal numbers\<close>

lemma plain_Cons: "plain (c # s) \<longleftrightarrow> 0x20 \<le> c \<and> c \<noteq> 0x22 \<and> c \<noteq> 0x5C \<and> c \<noteq> 0x60 \<and> plain s"
  by (auto simp: plain_def)



lemma parse_string_plain: "plain s \<Longrightarrow> parse_string (s @ 0x22 # r) = Some (s, r)"
  by (induction s) (auto simp: plain_Cons not_less [symmetric])

lemma skip_ws_Cons: "\<not> json_ws c \<Longrightarrow> skip_ws (c # cs) = c # cs"
  by (simp add: skip_ws_def)

lemma skip_ws_Nil: "skip_ws [] = []"
  by (simp add: skip_ws_def)

lemma unat_digit_char: "d < 10 \<Longrightarrow> unat (digit_char d) = 48 + d"
  unfolding digit_char_def by (simp only: unat_of_nat) simp

lemma is_digit_char: "d < 10 \<Longrightarrow> is_digit (digit_char d)"
  by (simp add: is_digit_def word_le_nat_alt unat_digit_char)

lemma digit_char_minus: "d < 10 \<Longrightarrow> uint (digit_char d - 0x30) = int d"
proof -
  assume d: "d < 10"
  have "digit_char d - 0x30 = of_nat d" by (simp add: digit_char_def)
  moreover have "unat (of_nat d :: jschar) = d" using d by (simp only: unat_of_nat) simp
  ultimately have "unat (digit_char d - 0x30) = d" by simp
  then show ?thesis by (simp only: uint_nat)
qed

lemma digit_char_zero_iff: "d < 10 \<Longrightarrow> digit_char d = 0x30 \<longleftrightarrow> d = 0"
proof
  assume d: "d < 10" and eq: "digit_char d = 0x30"
  from eq have "unat (digit_char d) = unat (0x30 :: jschar)" by simp
  with d show "d = 0" by (simp add: unat_digit_char)
next
  assume "d = 0"
  then show "digit_char d = 0x30" by (simp add: digit_char_def)
qed

lemma decimal_digits: "\<forall>c\<in>set (decimal n). is_digit c"
proof (induction n rule: decimal.induct)
  case (1 n)
  show ?case
  proof (cases "n < 10")
    case True
    then show ?thesis by (subst decimal.simps) (simp add: is_digit_char)
  next
    case False
    with 1 show ?thesis by (subst decimal.simps) (simp add: is_digit_char)
  qed
qed

lemma decimal_nonempty: "decimal n \<noteq> []"
  by (subst decimal.simps) simp

lemma digits_val_snoc: "digits_val (ds @ [d]) = 10 * digits_val ds + uint (d - 0x30)"
  by (simp add: digits_val_def)

lemma digits_val_decimal: "digits_val (decimal n) = int n"
proof (induction n rule: decimal.induct)
  case (1 n)
  show ?case
  proof (cases "n < 10")
    case True
    then show ?thesis by (subst decimal.simps) (simp add: digits_val_def digit_char_minus)
  next
    case False
    have "10 * int (n div 10) + int (n mod 10) = int n" by presburger
    with False 1 show ?thesis by (subst decimal.simps) (simp add: digits_val_snoc digit_char_minus)
  qed
qed

lemma hd_decimal_zero: "hd (decimal n) = 0x30 \<longleftrightarrow> n = 0"
proof (induction n rule: decimal.induct)
  case (1 n)
  show ?case
  proof (cases "n < 10")
    case True
    then show ?thesis by (subst decimal.simps) (simp add: digit_char_zero_iff)
  next
    case False
    with 1 show ?thesis by (subst decimal.simps) (simp add: decimal_nonempty)
  qed
qed

lemma follow_simps: "follow []" "follow (0x2C # r)" "follow (0x5D # r)" "follow (0x7D # r)"
  by (simp_all add: follow_def)

lemma follow_no_digit: "follow r \<Longrightarrow> takeWhile is_digit r = [] \<and> dropWhile is_digit r = r"
  by (cases r) (auto simp: follow_def is_digit_def)

lemma takeWhile_decimal:
  "follow r \<Longrightarrow> takeWhile is_digit (decimal n @ r) = decimal n"
  using decimal_digits [of n] follow_no_digit [of r] by (simp add: takeWhile_append2)

lemma dropWhile_decimal:
  "follow r \<Longrightarrow> dropWhile is_digit (decimal n @ r) = r"
  using decimal_digits [of n] follow_no_digit [of r] by (simp add: dropWhile_append2)

lemma decimal_zero: "decimal 0 = [0x30]"
  by (subst decimal.simps) (simp add: digit_char_def)

lemma decimal_Cons: "\<exists>c t. decimal n = c # t \<and> is_digit c \<and> (c = 0x30 \<longleftrightarrow> n = 0)"
  using decimal_nonempty [of n] decimal_digits [of n] hd_decimal_zero [of n]
  by (cases "decimal n") auto

lemma int_part_decimal: "follow r \<Longrightarrow> int_part (decimal n @ r) = Some (decimal n, r)"
proof (cases "n = 0")
  case True
  then show ?thesis by (simp add: decimal_zero int_part_def)
next
  case False
  assume f: "follow r"
  from decimal_Cons [of n] False obtain c t where
    d: "decimal n = c # t" and c: "is_digit c" "c \<noteq> 0x30" by auto
  have "int_part (decimal n @ r) =
          Some (takeWhile is_digit (decimal n @ r), dropWhile is_digit (decimal n @ r))"
    using c by (simp add: int_part_def d)
  then show ?thesis using f by (simp add: takeWhile_decimal dropWhile_decimal)
qed

lemma frac_part_follow: "follow r \<Longrightarrow> frac_part r = Some ([], r)"
  by (cases r) (auto simp: follow_def frac_part_def)

lemma exp_part_follow: "follow r \<Longrightarrow> exp_part r = Some (0, r)"
  by (cases r) (auto simp: follow_def exp_part_def)

lemma is_digit_not_minus: "is_digit c \<Longrightarrow> c \<noteq> 0x2D"
  by (auto simp: is_digit_def)

lemma parse_number_decimal:
  assumes "follow r"
  shows "parse_number (decimal n @ r) = Some (of_nat n, r)"
proof -
  from decimal_Cons [of n] obtain c t where d: "decimal n = c # t" and c: "is_digit c" by auto
  have sign: "(case decimal n @ r of
                 [] \<Rightarrow> (False, decimal n @ r)
               | c # r' \<Rightarrow> if c = 0x2D then (True, r') else (False, decimal n @ r))
              = (False, decimal n @ r)"
    using is_digit_not_minus [OF c] by (simp add: d)
  show ?thesis
    unfolding parse_number_def sign
    using assms
    by (simp add: int_part_decimal frac_part_follow exp_part_follow
          digits_val_decimal scale10_def)
qed

lemma parse_number_negative:
  assumes "follow r"
  shows "parse_number (0x2D # decimal n @ r) = Some (- of_nat n, r)"
  using assms
  by (simp add: parse_number_def int_part_decimal frac_part_follow exp_part_follow
        digits_val_decimal scale10_def)

subsection \<open>The numbers that JavaScript keeps\<close>

text \<open>
  \<open>floor_log2\<close> and \<open>round_half_even\<close> are what their names say; \<open>binary64 x\<close> is
  within half a spacing of \<open>x\<close>, and there is none exactly when the rounded value
  reaches \<open>2^1024\<close>.
\<close>

lemma round_half_even_of_int: "round_half_even (of_int k) = k"
  by (simp add: round_half_even_def)

lemma floor_log2_bounds:
  assumes "0 < x"
  shows "2 powi (floor_log2 x) \<le> x \<and> x < 2 powi (floor_log2 x + 1)"
proof -
  obtain a b where q: "quotient_of x = (a, b)" by (cases "quotient_of x")
  have b: "0 < b" using quotient_of_denom_pos [OF q] .
  have x: "x = of_int a / of_int b" using quotient_of_div [OF q] .
  have a: "0 < a" using assms b unfolding x by (simp add: zero_less_divide_iff)
  define la where "la = bitlen a"
  define lb where "lb = bitlen b"
  have la: "1 \<le> la" and lb: "1 \<le> lb"
    using a b by (auto simp: la_def lb_def bitlen_alt_def)
  have a1: "(2::rat) powi (la - 1) \<le> of_int a" and a2: "of_int a < (2::rat) powi la"
  proof -
    from bitlen_bounds [OF a] have "2 ^ nat (la - 1) \<le> a" "a < 2 ^ nat la"
      by (simp_all add: la_def)
    then have "(of_int (2 ^ nat (la - 1)) :: rat) \<le> of_int a" "(of_int a :: rat) < of_int (2 ^ nat la)"
      by (simp_all only: of_int_le_iff of_int_less_iff)
    then show "(2::rat) powi (la - 1) \<le> of_int a" "of_int a < (2::rat) powi la"
      using la by (simp_all add: power_int_def)
  qed
  have b1: "(2::rat) powi (lb - 1) \<le> of_int b" and b2: "of_int b < (2::rat) powi lb"
  proof -
    from bitlen_bounds [OF b] have "2 ^ nat (lb - 1) \<le> b" "b < 2 ^ nat lb"
      by (simp_all add: lb_def)
    then have "(of_int (2 ^ nat (lb - 1)) :: rat) \<le> of_int b" "(of_int b :: rat) < of_int (2 ^ nat lb)"
      by (simp_all only: of_int_le_iff of_int_less_iff)
    then show "(2::rat) powi (lb - 1) \<le> of_int b" "of_int b < (2::rat) powi lb"
      using lb by (simp_all add: power_int_def)
  qed
  have bp: "(0::rat) < of_int b" using b by simp
  have ap: "(0::rat) < of_int a" using a by simp
  have up: "x < 2 powi (la - lb + 1)"
  proof -
    have "x < 2 powi la / of_int b"
      unfolding x using a2 bp by (simp add: divide_strict_right_mono)
    also have "\<dots> \<le> 2 powi la / 2 powi (lb - 1)"
      using b1 bp by (intro divide_left_mono) (simp_all add: zero_less_power_int)
    also have "\<dots> = 2 powi (la - lb + 1)"
      by (simp add: power_int_diff [symmetric] algebra_simps)
    finally show ?thesis .
  qed
  have lo: "2 powi (la - lb - 1) \<le> x"
  proof -
    have "(2::rat) powi (la - lb - 1) = 2 powi (la - 1) / 2 powi lb"
      by (simp add: power_int_diff [symmetric] algebra_simps)
    also have "\<dots> \<le> of_int a / 2 powi lb"
      using a1 by (intro divide_right_mono) simp_all
    also have "\<dots> \<le> of_int a / of_int b"
      using b2 bp ap by (intro divide_left_mono) (simp_all add: zero_less_power_int)
    finally show ?thesis unfolding x .
  qed
  show ?thesis
  proof (cases "2 powi (la - lb) \<le> x")
    case True
    then have "floor_log2 x = la - lb"
      by (simp add: floor_log2_def q la_def lb_def)
    with True up show ?thesis by simp
  next
    case False
    then have "floor_log2 x = la - lb - 1"
      by (simp add: floor_log2_def q la_def lb_def)
    with False lo show ?thesis by simp
  qed
qed

lemma round_half_even_cases:
  "round_half_even x = \<lfloor>x\<rfloor> \<or> (round_half_even x = \<lfloor>x\<rfloor> + 1 \<and> 1 / 2 \<le> x - of_int \<lfloor>x\<rfloor>)"
  by (auto simp: round_half_even_def Let_def)

lemma round_half_even_nearest: "\<bar>of_int (round_half_even x) - x\<bar> \<le> 1 / 2"
proof -
  define r where "r = x - of_int \<lfloor>x\<rfloor>"
  have r: "0 \<le> r" "r < 1" unfolding r_def by linarith+
  have x: "x = of_int \<lfloor>x\<rfloor> + r" by (simp add: r_def)
  consider "r < 1 / 2" | "1 / 2 < r" | "r = 1 / 2" by linarith
  then show ?thesis
  proof cases
    case 1
    then have "round_half_even x = \<lfloor>x\<rfloor>" by (simp add: round_half_even_def r_def)
    then have "of_int (round_half_even x) - x = - r" by (simp add: r_def)
    with 1 r show ?thesis by simp
  next
    case 2
    then have "round_half_even x = \<lfloor>x\<rfloor> + 1" by (simp add: round_half_even_def r_def)
    then have "of_int (round_half_even x) - x = 1 - r" by (simp add: r_def)
    with 2 r show ?thesis by simp
  next
    case 3
    then have "round_half_even x = \<lfloor>x\<rfloor> \<or> round_half_even x = \<lfloor>x\<rfloor> + 1"
      by (simp add: round_half_even_def r_def Let_def)
    then have "of_int (round_half_even x) - x = - r \<or> of_int (round_half_even x) - x = 1 - r"
      by (auto simp: r_def)
    with 3 show ?thesis by auto
  qed
qed

lemma round_half_even_ge: "of_int a \<le> x \<Longrightarrow> a \<le> round_half_even x"
proof -
  assume "of_int a \<le> x"
  then have "a \<le> \<lfloor>x\<rfloor>" by (simp add: le_floor_iff)
  with round_half_even_cases [of x] show ?thesis by auto
qed

lemma round_half_even_le: "x \<le> of_int b \<Longrightarrow> round_half_even x \<le> b"
proof -
  assume b: "x \<le> of_int b"
  from floor_mono [OF this] have f: "\<lfloor>x\<rfloor> \<le> b" by simp
  show ?thesis
  proof (cases "round_half_even x = \<lfloor>x\<rfloor>")
    case True
    with f show ?thesis by simp
  next
    case False
    with round_half_even_cases [of x]
    have r: "round_half_even x = \<lfloor>x\<rfloor> + 1" and h: "1 / 2 \<le> x - of_int \<lfloor>x\<rfloor>" by auto
    from h have "of_int \<lfloor>x\<rfloor> < x" by simp
    with b have "(of_int \<lfloor>x\<rfloor> :: rat) < of_int b" by simp
    then have "\<lfloor>x\<rfloor> < b" by (simp only: of_int_less_iff)
    with r show ?thesis by simp
  qed
qed

lemma binary64_None_iff:
  assumes "0 < x"
  shows "binary64 x = None \<longleftrightarrow>
           (2::rat) ^ 1024 \<le> of_int (round_half_even (x / 2 powi max (floor_log2 x - 52) (- 1074)))
                         * 2 powi max (floor_log2 x - 52) (- 1074)"
proof -
  define f where "f = floor_log2 x"
  define e where "e = max (f - 52) (- 1074)"
  define m where "m = round_half_even (x / 2 powi e)"
  from floor_log2_bounds [OF assms] have lo: "2 powi f \<le> x" and up: "x < 2 powi (f + 1)"
    by (simp_all add: f_def)
  have pe: "(0::rat) < 2 powi e" by (simp add: zero_less_power_int)
  have m0: "0 \<le> m"
    unfolding m_def using assms pe by (intro round_half_even_ge) simp
  have m53: "m \<le> 2 ^ 53"
  proof -
    have "f + 1 \<le> 53 + e" by (simp add: e_def)
    then have "(2::rat) powi (f + 1) \<le> 2 powi (53 + e)" by (intro power_int_increasing) simp_all
    moreover have "(2::rat) powi (53 + e) = 2 powi 53 * 2 powi e" by (rule power_int_add) simp
    ultimately have "x \<le> of_int (2 ^ 53) * 2 powi e" using up by simp
    then have "x / 2 powi e \<le> of_int (2 ^ 53)" using pe by (simp add: pos_divide_le_eq)
    then show ?thesis unfolding m_def by (rule round_half_even_le)
  qed
  have m52: "2 ^ 52 \<le> m" if "e = f - 52"
  proof -
    have "(2::rat) powi (52 + e) = 2 powi 52 * 2 powi e" by (rule power_int_add) simp
    moreover have "52 + e = f" using that by simp
    ultimately have "of_int (2 ^ 52) * 2 powi e = (2::rat) powi f" by simp
    with lo have "of_int (2 ^ 52) \<le> x / 2 powi e" using pe by (simp add: pos_le_divide_eq)
    then show ?thesis unfolding m_def by (rule round_half_even_ge)
  qed
  have "971 < e \<or> (e = 971 \<and> m = 2 ^ 53) \<longleftrightarrow> (2::rat) ^ 1024 \<le> of_int m * 2 powi e"
  proof
    assume a: "971 < e \<or> (e = 971 \<and> m = 2 ^ 53)"
    then have ef: "e = f - 52" by (auto simp: e_def)
    from a have "972 \<le> e \<or> (e = 971 \<and> m = 2 ^ 53)" by auto
    then show "(2::rat) ^ 1024 \<le> of_int m * 2 powi e"
    proof
      assume e: "972 \<le> e"
      have "(2::rat) ^ 1024 = of_int (2 ^ 52) * 2 powi 972" by simp
      also have "\<dots> \<le> of_int m * 2 powi 972"
        using m52 [OF ef] by (intro mult_right_mono) simp_all
      also have "\<dots> \<le> of_int m * 2 powi e"
        using e m0 by (intro mult_left_mono power_int_increasing) simp_all
      finally show ?thesis .
    next
      assume "e = 971 \<and> m = 2 ^ 53"
      then show ?thesis by simp
    qed
  next
    assume b: "(2::rat) ^ 1024 \<le> of_int m * 2 powi e"
    show "971 < e \<or> (e = 971 \<and> m = 2 ^ 53)"
    proof (rule ccontr)
      assume "\<not> (971 < e \<or> (e = 971 \<and> m = 2 ^ 53))"
      then consider "e \<le> 970" | "e = 971" "m \<noteq> 2 ^ 53" by fastforce
      then show False
      proof cases
        case 1
        have "of_int m * (2::rat) powi e \<le> of_int (2 ^ 53) * 2 powi e"
          using m53 pe by (intro mult_right_mono) simp_all
        also have "\<dots> \<le> of_int (2 ^ 53) * 2 powi 970"
          using 1 by (intro mult_left_mono power_int_increasing) simp_all
        also have "\<dots> < 2 ^ 1024" by simp
        finally show False using b by simp
      next
        case 2
        with m53 have "m \<le> 2 ^ 53 - 1" by simp
        then have "of_int m * (2::rat) powi 971 \<le> of_int (2 ^ 53 - 1) * 2 powi 971"
          by (intro mult_right_mono) simp_all
        also have "\<dots> < 2 ^ 1024" by simp
        finally show False using b 2 by simp
      qed
    qed
  qed
  then show ?thesis
    using assms by (simp add: binary64_def Let_def f_def [symmetric] e_def [symmetric] m_def [symmetric])
qed

lemma binary64_nearest:
  assumes "0 < x" and "binary64 x = Some y"
  shows "\<bar>y - x\<bar> \<le> 2 powi max (floor_log2 x - 52) (- 1074) / 2"
proof -
  define e where "e = max (floor_log2 x - 52) (- 1074)"
  define m where "m = round_half_even (x / 2 powi e)"
  have pe: "(0::rat) < 2 powi e" by (simp add: zero_less_power_int)
  have y: "y = of_int m * 2 powi e"
    using assms by (simp add: binary64_def Let_def e_def [symmetric] m_def [symmetric] split: if_splits)
  have "y - x = (of_int m - x / 2 powi e) * 2 powi e"
    using pe by (simp add: y field_simps)
  then have "\<bar>y - x\<bar> = \<bar>of_int m - x / 2 powi e\<bar> * 2 powi e"
    using pe by (simp only: abs_mult abs_of_pos)
  also have "\<dots> \<le> 1 / 2 * 2 powi e"
    using round_half_even_nearest [of "x / 2 powi e"] pe
    by (intro mult_right_mono) (simp_all add: m_def)
  finally show ?thesis by (simp add: e_def)
qed

text \<open>Every integer up to \<open>2^53\<close> in magnitude is a binary64 number.\<close>

lemma binary64_of_int:
  assumes "0 \<le> n" and "n \<le> 2 ^ 53"
  shows "binary64 (of_int n) = Some (of_int n)"
proof (cases "n = 0")
  case True
  then show ?thesis by (simp add: binary64_def)
next
  case False
  define x :: rat where "x = of_int n"
  define f where "f = floor_log2 x"
  have n: "1 \<le> n" using assms(1) False by simp
  have x1: "1 \<le> x" using n by (simp add: x_def)
  have x0: "0 < x" using x1 by simp
  from floor_log2_bounds [OF x0] have lo: "2 powi f \<le> x" and up: "x < 2 powi (f + 1)"
    by (simp_all add: f_def)
  have xle: "x \<le> 2 powi 53" using assms(2) unfolding x_def
    by (metis of_int_le_iff of_int_numeral of_int_power power_int_numeral)
  have f0: "0 \<le> f"
  proof (rule ccontr)
    assume "\<not> 0 \<le> f"
    then have "f + 1 \<le> 0" by simp
    then have "(2::rat) powi (f + 1) \<le> 2 powi 0" by (intro power_int_increasing) simp_all
    with up x1 show False by simp
  qed
  have f53: "f \<le> 53"
  proof (rule ccontr)
    assume "\<not> f \<le> 53"
    then have "54 \<le> f" by simp
    then have "(2::rat) powi 54 \<le> 2 powi f" by (intro power_int_increasing) simp_all
    moreover have "(2::rat) powi 53 < 2 powi 54" by (intro power_int_strict_increasing) simp_all
    ultimately show False using lo xle by simp
  qed
  define e where "e = max (f - 52) (- 1074)"
  have e: "e = f - 52" using f0 by (simp add: e_def)
  have ov: "\<not> (971 < e \<or> (e = 971 \<and> m = 2 ^ 53))" for m :: int using e f53 by simp
  have "\<exists>k. x / 2 powi e = of_int k"
  proof (cases "f \<le> 52")
    case True
    then have "0 \<le> - e" using e by simp
    have "x / 2 powi e = x * 2 powi (- e)"
      by (simp add: power_int_minus field_simps)
    also have "\<dots> = of_int (n * 2 ^ nat (- e))"
      using \<open>0 \<le> - e\<close> by (simp add: x_def power_int_def)
    finally show ?thesis by blast
  next
    case False
    with f53 have f: "f = 53" by simp
    then have "(2::rat) powi 53 \<le> x" using lo by simp
    with xle have "x = 2 powi 53" by simp
    then have "x / 2 powi e = of_int (2 ^ 52)" using e f by simp
    then show ?thesis by blast
  qed
  then obtain k where k: "x / 2 powi e = of_int k" by blast
  have "of_int k * 2 powi e = x"
    using k by (simp add: field_simps)
  then show ?thesis
    using False x0 ov k
    by (simp add: binary64_def Let_def x_def [symmetric] f_def [symmetric] e_def [symmetric]
          round_half_even_of_int)
qed

lemma number_value_of_int:
  assumes "\<bar>n\<bar> \<le> 2 ^ 53"
  shows "number_value (n < 0) (of_int n) = JNumber (of_int n)"
proof (cases "n < 0")
  case True
  then have a: "\<bar>rat_of_int n\<bar> = of_int (- n)" by simp
  have b: "binary64 (of_int (- n)) = Some (of_int (- n))"
    using assms True by (intro binary64_of_int) simp_all
  have c: "rat_of_int (- n) \<noteq> 0" using True by simp
  have "number_value True (of_int n) = JNumber (- of_int (- n))"
    unfolding number_value_def a b using c by (simp only: option.case if_True if_False)
  with True show ?thesis by simp
next
  case False
  then have a: "\<bar>rat_of_int n\<bar> = of_int n" by simp
  have b: "binary64 (of_int n) = Some (of_int n)"
    using assms False by (intro binary64_of_int) simp_all
  have "number_value False (of_int n) = JNumber (of_int n)"
    unfolding number_value_def a b by (simp only: option.case if_False)
  with False show ?thesis by simp
qed


subsection \<open>The members of an object\<close>

text \<open>
  Setting a member keeps the keys distinct and changes the value of that member only;
  a key that is new and no array index goes to the end.
\<close>

lemma obj_replace_keys: "map fst (obj_replace acc k v) = map fst acc"
  by (induction acc) auto


lemma obj_insert_index_keys:
  "fst ` set (obj_insert_index acc k v) = insert k (fst ` set acc)"
proof (induction acc)
  case Nil
  then show ?case by simp
next
  case (Cons a acc)
  obtain k' v' where a: "a = (k', v')" by (cases a)
  show ?case
  proof (cases "is_array_index k' \<and> digits_val k' < digits_val k")
    case True
    then show ?thesis using Cons.IH by (simp add: a insert_commute)
  next
    case False
    then show ?thesis by (auto simp: a)
  qed
qed

lemma distinct_obj_insert_index:
  "distinct (map fst acc) \<Longrightarrow> k \<notin> fst ` set acc \<Longrightarrow>
   distinct (map fst (obj_insert_index acc k v))"
proof (induction acc)
  case Nil
  then show ?case by simp
next
  case (Cons a acc)
  obtain k' v' where a: "a = (k', v')" by (cases a)
  show ?case
  proof (cases "is_array_index k' \<and> digits_val k' < digits_val k")
    case True
    then show ?thesis
      using Cons obj_insert_index_keys [of acc k v] by (auto simp: a)
  next
    case False
    then show ?thesis using Cons.prems by (auto simp: a)
  qed
qed


lemma obj_set_distinct:
  "distinct (map fst acc) \<Longrightarrow> distinct (map fst (obj_set acc k v))"
  by (auto simp: obj_set_def obj_replace_keys distinct_obj_insert_index)


lemma obj_set_new:
  "k \<notin> fst ` set acc \<Longrightarrow> \<not> is_array_index k \<Longrightarrow> obj_set acc k v = acc @ [(k, v)]"
  by (simp add: obj_set_def)


lemma foldl_obj_set:
  "distinct (map fst (acc @ kvs)) \<Longrightarrow> list_all (\<lambda>kv. \<not> is_array_index (fst kv)) kvs \<Longrightarrow>
   foldl (\<lambda>obj (k, v). obj_set obj k v) acc kvs = acc @ kvs"
proof (induction kvs arbitrary: acc)
  case Nil
  then show ?case by simp
next
  case (Cons kv kvs)
  obtain k v where kv: "kv = (k, v)" by (cases kv)
  have new: "k \<notin> fst ` set acc" using Cons.prems kv by auto
  have ni: "\<not> is_array_index k" using Cons.prems(2) kv by simp
  have "distinct (map fst ((acc @ [(k, v)]) @ kvs))" using Cons.prems kv by auto
  moreover have "list_all (\<lambda>kv. \<not> is_array_index (fst kv)) kvs" using Cons.prems(2) by simp
  ultimately show ?case using Cons.IH [of "acc @ [(k, v)]"] by (simp add: kv obj_set_new [OF new ni])
qed

lemma obj_of_members_distinct:
  "distinct (map fst kvs) \<Longrightarrow> list_all (\<lambda>kv. \<not> is_array_index (fst kv)) kvs \<Longrightarrow>
   obj_of_members kvs = kvs"
  using foldl_obj_set [of "[]" kvs] by (simp add: obj_of_members_def)



text \<open>Some values as JavaScript keeps them.\<close>

lemma JSON_parse_examples:
  "JSON_parse (js ''9007199254740993'') = Some (JNumber 9007199254740992)"
  "JSON_parse (js ''0.1'') = Some (JNumber (3602879701896397 / 36028797018963968))"
  "JSON_parse (js ''-0'') = Some JNegativeZero"
  "JSON_parse (js ''{\"b\":1,\"1\":2,\"0\":3,\"a\":4,\"1\":5}'')
     = Some (JObject [(js ''0'', JNumber 3), (js ''1'', JNumber 5),
                      (js ''b'', JNumber 1), (js ''a'', JNumber 4)])"
  by code_simp+

subsection \<open>The text of a simple value is parsed to what is stored of it\<close>

lemma is_digit_start: "is_digit c \<Longrightarrow> \<not> json_ws c \<and> c \<noteq> 0x5D \<and> c \<noteq> 0x7D"
  by (auto simp: is_digit_def json_ws_def)

lemma json_text_start: "\<exists>c t. json_text v = c # t \<and> \<not> json_ws c \<and> c \<noteq> 0x5D \<and> c \<noteq> 0x7D"
proof (cases v)
  case (JNumber x)
  from decimal_Cons [of "nat \<lfloor>x\<rfloor>"] obtain c t where
    "decimal (nat \<lfloor>x\<rfloor>) = c # t" "is_digit c" by auto
  then show ?thesis using JNumber is_digit_start [of c] by (auto simp: json_ws_def)
qed (auto simp: js_def json_ws_def)

lemma skip_ws_json_text: "skip_ws (json_text v @ r) = json_text v @ r"
  using json_text_start [of v] by (auto simp: skip_ws_def)

text \<open>What is stored of a simple value that is exact is the value itself.\<close>

lemma stored_exact: "simple v \<Longrightarrow> exact v \<Longrightarrow> stored v = v"
proof (induction v)
  case (JNumber x)
  then obtain n where x: "x = of_int n" and a: "\<bar>x\<bar> \<le> 2 ^ 53" by auto
  have "rat_of_int \<bar>n\<bar> \<le> of_int (2 ^ 53)" using a unfolding x by simp
  then have b: "\<bar>n\<bar> \<le> 2 ^ 53" by (simp only: of_int_le_iff)
  from number_value_of_int [OF b] show ?case unfolding x by simp
next
  case (JArray vs)
  then have "map stored vs = vs" by (intro map_idI) (simp add: list_all_iff)
  then show ?case by simp
next
  case (JObject kvs)
  have "(fst kv, stored (snd kv)) = kv" if "kv \<in> set kvs" for kv
    using JObject.IH [of kv "snd kv"] JObject.prems that by (cases kv) (fastforce simp: list_all_iff)
  then have m: "map (\<lambda>kv. (fst kv, stored (snd kv))) kvs = kvs" by (intro map_idI)
  have "obj_of_members kvs = kvs"
    using JObject.prems by (intro obj_of_members_distinct) (auto simp: list_all_iff)
  with m show ?case by simp
qed simp_all


lemma parse_value_number_text:
  assumes "x = of_int \<lfloor>x\<rfloor>" and "follow r"
  shows "parse_value (json_text (JNumber x) @ r) = Some (number_value (x < 0) x, r)"
proof (cases "x < 0")
  case True
  then have "\<lfloor>x\<rfloor> < 0" using assms(1) by (metis of_int_less_0_iff)
  then have "- rat_of_nat (nat (- \<lfloor>x\<rfloor>)) = of_int \<lfloor>x\<rfloor>" by simp
  with assms(1) have v: "- rat_of_nat (nat (- \<lfloor>x\<rfloor>)) = x" by simp
  have "parse_number (0x2D # decimal (nat (- \<lfloor>x\<rfloor>)) @ r) = Some (x, r)"
    using parse_number_negative [OF assms(2), of "nat (- \<lfloor>x\<rfloor>)"] unfolding v .
  then have "parse_value (0x2D # decimal (nat (- \<lfloor>x\<rfloor>)) @ r)
               = Some (number_value True x, r)"
    by (simp add: js_def)
  with True show ?thesis by simp
next
  case False
  then have "0 \<le> \<lfloor>x\<rfloor>" by simp
  then have "rat_of_nat (nat \<lfloor>x\<rfloor>) = of_int \<lfloor>x\<rfloor>" by simp
  with assms(1) have v: "rat_of_nat (nat \<lfloor>x\<rfloor>) = x" by simp
  from decimal_Cons [of "nat \<lfloor>x\<rfloor>"] obtain c t where
    d: "decimal (nat \<lfloor>x\<rfloor>) = c # t" and c: "is_digit c" by auto
  have nm: "(c = 0x2D) = False" using is_digit_not_minus [OF c] by simp
  have "parse_value (c # (t @ r)) =
          (case parse_number (c # (t @ r)) of
             None \<Rightarrow> None
           | Some (x, r) \<Rightarrow> Some (number_value (c = 0x2D) x, r))"
    using c by (auto simp: is_digit_def js_def)
  moreover have "parse_number (c # (t @ r)) = Some (x, r)"
    using parse_number_decimal [OF assms(2), of "nat \<lfloor>x\<rfloor>"] v by (simp add: d)
  ultimately have "parse_value (c # (t @ r)) = Some (number_value False x, r)"
    by (simp only: option.case prod.case nm)
  then show ?thesis using False by (simp add: d del: parse_value.simps)
qed

lemma parse_elements_last:
  "parse_value cs = Some (v, 0x5D # r) \<Longrightarrow> parse_elements cs = Some ([v], r)"
  by (subst parse_elements.simps) (simp add: skip_ws_def json_ws_def del: parse_value.simps)

lemma parse_elements_step:
  assumes "parse_value cs = Some (v, 0x2C # rest)" and "length rest < length cs"
    and "skip_ws rest = rest" and "parse_elements rest = Some (vs, r)"
  shows "parse_elements cs = Some (v # vs, r)"
  by (subst parse_elements.simps)
     (simp add: assms skip_ws_Cons json_ws_def del: parse_value.simps parse_elements.simps)

lemma join_texts_Cons:
  "join sep (map f (y # zs)) @ r = f y @ (if zs = [] then [] else sep @ join sep (map f zs)) @ r"
  by (cases zs) simp_all

lemma parse_elements_texts:
  assumes "\<And>v r. v \<in> set vs \<Longrightarrow> follow r \<Longrightarrow> parse_value (json_text v @ r) = Some (g v, r)"
    and "vs \<noteq> []"
  shows "parse_elements (join [0x2C] (map json_text vs) @ 0x5D # r) = Some (map g vs, r)"
  using assms
proof (induction vs rule: induct_list012)
  case 1
  then show ?case by simp
next
  case (2 x)
  have "parse_value (json_text x @ 0x5D # r) = Some (g x, 0x5D # r)"
    using 2(1) [of x "0x5D # r"] by (simp add: follow_simps)
  from parse_elements_last [OF this] show ?case by simp
next
  case (3 x y zs)
  let ?rest = "join [0x2C] (map json_text (y # zs)) @ 0x5D # r"
  have v: "parse_value (json_text x @ 0x2C # ?rest) = Some (g x, 0x2C # ?rest)"
    using 3(3) [of x "0x2C # ?rest"] by (simp add: follow_simps)
  have sk: "skip_ws ?rest = ?rest"
    by (subst (1 2) join_texts_Cons) (rule skip_ws_json_text)
  have tl: "parse_elements ?rest = Some (map g (y # zs), r)"
    using 3(2) 3(3) by simp
  have "parse_elements (json_text x @ 0x2C # ?rest) = Some (g x # map g (y # zs), r)"
    by (rule parse_elements_step [OF v _ sk tl]) simp
  then show ?case by simp
qed

lemma skip_ws_member_text: "skip_ws (member_text kv @ r) = member_text kv @ r"
  by (simp add: member_text_def skip_ws_Cons json_ws_def)

lemma parse_members_last:
  assumes "plain k" and "parse_value (json_text v @ 0x7D # r) = Some (w, 0x7D # r)"
  shows "parse_members (member_text (k, v) @ 0x7D # r) = Some ([(k, w)], r)"
  using assms
  by (simp add: member_text_def parse_string_plain skip_ws_Cons json_ws_def skip_ws_json_text
        del: parse_value.simps)

lemma parse_members_step:
  assumes "plain k" and "parse_value (json_text v @ 0x2C # rest) = Some (w, 0x2C # rest)"
    and "skip_ws rest = rest" and "parse_members rest = Some (kvs, r)"
  shows "parse_members (member_text (k, v) @ 0x2C # rest) = Some ((k, w) # kvs, r)"
  unfolding member_text_def fst_conv snd_conv append_Cons
  by (subst parse_members.simps)
     (simp add: assms parse_string_plain skip_ws_Cons json_ws_def skip_ws_json_text
        del: parse_value.simps parse_members.simps)

lemma parse_members_texts:
  assumes "\<And>k v r. (k, v) \<in> set kvs \<Longrightarrow> follow r \<Longrightarrow> parse_value (json_text v @ r) = Some (g v, r)"
    and "\<And>k v. (k, v) \<in> set kvs \<Longrightarrow> plain k"
    and "kvs \<noteq> []"
  shows "parse_members (join [0x2C] (map member_text kvs) @ 0x7D # r)
           = Some (map (\<lambda>kv. (fst kv, g (snd kv))) kvs, r)"
  using assms
proof (induction kvs rule: induct_list012)
  case 1
  then show ?case by simp
next
  case (2 x)
  obtain k v where x: "x = (k, v)" by (cases x)
  have "parse_value (json_text v @ 0x7D # r) = Some (g v, 0x7D # r)"
    using 2(1) [of k v "0x7D # r"] by (simp add: follow_simps x)
  from parse_members_last [OF _ this, of k] 2(2) [of k v] show ?case by (simp add: x)
next
  case (3 x y zs)
  obtain k v where x: "x = (k, v)" by (cases x)
  let ?rest = "join [0x2C] (map member_text (y # zs)) @ 0x7D # r"
  have v: "parse_value (json_text v @ 0x2C # ?rest) = Some (g v, 0x2C # ?rest)"
    using 3(3) [of k v "0x2C # ?rest"] by (simp add: follow_simps x)
  have k: "plain k" using 3(4) [of k v] by (simp add: x)
  have sk: "skip_ws ?rest = ?rest"
    by (subst (1 2) join_texts_Cons) (rule skip_ws_member_text)
  have tl: "parse_members ?rest = Some (map (\<lambda>kv. (fst kv, g (snd kv))) (y # zs), r)"
  proof (rule 3(2))
    show "parse_value (json_text v' @ r') = Some (g v', r')"
      if "(k', v') \<in> set (y # zs)" and "follow r'" for k' v' r'
      using that 3(3) [of k' v' r'] by simp
    show "plain k'" if "(k', v') \<in> set (y # zs)" for k' v'
      using that 3(4) [of k' v'] by simp
    show "y # zs \<noteq> []" by simp
  qed
  have "parse_members (member_text (k, v) @ 0x2C # ?rest)
          = Some ((k, g v) # map (\<lambda>kv. (fst kv, g (snd kv))) (y # zs), r)"
    by (rule parse_members_step [OF k v sk tl])
  then show ?case by (simp add: x)
qed

theorem parse_value_json_text:
  "simple v \<Longrightarrow> follow r \<Longrightarrow> parse_value (json_text v @ r) = Some (stored v, r)"
proof (induction v arbitrary: r)
  case JNull
  then show ?case by (simp add: js_def)
next
  case (JBool b)
  then show ?case by (simp add: js_def)
next
  case (JNumber x)
  then show ?case using parse_value_number_text [of x r] by simp
next
  case (JString s)
  then show ?case by (simp add: parse_string_plain)
next
  case (JArray vs)
  show ?case
  proof (cases "vs = []")
    case True
    then show ?thesis by (simp add: skip_ws_def json_ws_def)
  next
    case False
    have ih: "\<And>v r. v \<in> set vs \<Longrightarrow> follow r \<Longrightarrow> parse_value (json_text v @ r) = Some (stored v, r)"
      using JArray by simp
    from False obtain y zs where vs: "vs = y # zs" by (cases vs) auto
    from json_text_start [of y] obtain c t0 where
      y: "json_text y = c # t0" and c: "\<not> json_ws c" "c \<noteq> 0x5D" by auto
    define t where "t = t0 @ (if zs = [] then [] else [0x2C] @ join [0x2C] (map json_text zs)) @ 0x5D # r"
    have ct: "join [0x2C] (map json_text vs) @ 0x5D # r = c # t"
      unfolding vs t_def by (subst join_texts_Cons) (simp add: y)
    have "parse_elements (c # t) = Some (map stored vs, r)"
      using parse_elements_texts [OF ih False, where r = r] by (simp only: ct)
    then have "parse_value (0x5B # c # t) = Some (JArray (map stored vs), r)"
      using c by (simp add: skip_ws_Cons del: parse_elements.simps)
    then show ?thesis by (simp add: ct [symmetric] del: parse_value.simps)
  qed
next
  case (JObject kvs)
  show ?case
  proof (cases "kvs = []")
    case True
    then show ?thesis by (simp add: skip_ws_def json_ws_def obj_of_members_def)
  next
    case False
    let ?ms = "map (\<lambda>kv. (fst kv, stored (snd kv))) kvs"
    have ih: "\<And>k v r. (k, v) \<in> set kvs \<Longrightarrow> follow r \<Longrightarrow> parse_value (json_text v @ r) = Some (stored v, r)"
      using JObject by fastforce
    have pk: "\<And>k v. (k, v) \<in> set kvs \<Longrightarrow> plain k"
      using JObject(2) by fastforce
    from False obtain y zs where kvs: "kvs = y # zs" by (cases kvs) auto
    have ct: "join [0x2C] (map member_text kvs) @ 0x7D # r
                = 0x22 # tl (join [0x2C] (map member_text kvs) @ 0x7D # r)"
      unfolding kvs by (subst (1 2) join_texts_Cons) (simp add: member_text_def)
    have "parse_members (0x22 # tl (join [0x2C] (map member_text kvs) @ 0x7D # r)) = Some (?ms, r)"
      using parse_members_texts [OF ih pk False, where r = r] ct by simp
    then have "parse_value (0x7B # 0x22 # tl (join [0x2C] (map member_text kvs) @ 0x7D # r))
                 = Some (JObject (obj_of_members ?ms), r)"
      by (simp add: skip_ws_Cons json_ws_def del: parse_members.simps)
    then have "parse_value (0x7B # join [0x2C] (map member_text kvs) @ 0x7D # r)
                 = Some (JObject (obj_of_members ?ms), r)"
      using ct by simp
    moreover have "json_text (JObject kvs) = 0x7B # join [0x2C] (map member_text kvs) @ [0x7D]"
      by (simp add: member_text_def [abs_def])
    ultimately show ?thesis by (simp del: parse_value.simps)
  qed
qed simp_all

theorem JSON_parse_json_text: "simple v \<Longrightarrow> JSON_parse (json_text v) = Some (stored v)"
  using parse_value_json_text [of v "[]"] skip_ws_json_text [of v "[]"]
  by (simp add: JSON_parse_def follow_simps skip_ws_Nil)

lemma JSON_parse_json_text_exact:
  "simple v \<Longrightarrow> exact v \<Longrightarrow> JSON_parse (json_text v) = Some v"
  by (simp add: JSON_parse_json_text stored_exact)

subsection \<open>The parser consumes its input\<close>

lemma int_part_length: "int_part cs = Some (ip, r) \<Longrightarrow> length r < length cs"
  by (cases cs) (auto simp: int_part_def split: if_splits intro: le_imp_less_Suc length_dropWhile_le)

lemma frac_part_length: "frac_part cs = Some (fp, r) \<Longrightarrow> length r \<le> length cs"
  by (cases cs) (auto simp: frac_part_def split: if_splits intro: le_SucI length_dropWhile_le)

lemma exp_part_length: "exp_part cs = Some (e, r) \<Longrightarrow> length r \<le> length cs"
proof (cases cs)
  case Nil
  assume "exp_part cs = Some (e, r)"
  with Nil show ?thesis by (simp add: exp_part_def)
next
  case (Cons c t)
  assume a: "exp_part cs = Some (e, r)"
  have "length (snd (exp_sign t)) \<le> length t"
    by (cases t) (auto simp: exp_sign_def)
  moreover have "length (dropWhile is_digit (snd (exp_sign t))) \<le> length (snd (exp_sign t))"
    by (rule length_dropWhile_le)
  ultimately show ?thesis
    using a Cons by (auto simp: exp_part_def split: if_splits prod.splits)
qed

lemma parse_number_length: "parse_number cs = Some (x, r) \<Longrightarrow> length r < length cs"
proof -
  assume a: "parse_number cs = Some (x, r)"
  define r0 where "r0 = snd (case cs of [] \<Rightarrow> (False, cs) | c # t \<Rightarrow> if c = 0x2D then (True, t) else (False, cs))"
  have r0: "length r0 \<le> length cs" by (cases cs) (auto simp: r0_def)
  from a obtain ip r1 fp r2 e where
    "int_part r0 = Some (ip, r1)" "frac_part r1 = Some (fp, r2)" "exp_part r2 = Some (e, r)"
    by (auto simp: parse_number_def r0_def split: option.splits prod.splits list.splits if_splits)
  then show ?thesis
    using r0 int_part_length [of r0 ip r1] frac_part_length [of r1 fp r2] exp_part_length [of r2 e r]
    by simp
qed

lemmas parse_simps_del = parse_value.simps parse_members.simps parse_elements.simps

lemma parse_lengths:
  "parse_value cs = Some (v, r) \<Longrightarrow> length r < length cs"
  "parse_members cs = Some (kvs, r) \<Longrightarrow> length r < length cs"
  "parse_elements cs = Some (vs, r) \<Longrightarrow> length r < length cs"
proof (induction cs and cs and cs arbitrary: v r and kvs r and vs r
       rule: parse_value_parse_members_parse_elements.induct)
  case 1
  then show ?case by simp
next
  case (2 c cs)
  note A = 2(3) [unfolded parse_value.simps(2)]
  show ?case
  proof (cases "c = 0x7B")
    case True
    show ?thesis
    proof (cases "skip_ws cs")
      case Nil
      with A True show ?thesis by simp
    next
      case (Cons d ds)
      note l = skip_ws_Cons_length [OF Cons]
      show ?thesis
      proof (cases "d = 0x7D")
        case True
        with A \<open>c = 0x7B\<close> Cons l show ?thesis by (simp del: parse_simps_del)
      next
        case False
        with A \<open>c = 0x7B\<close> Cons obtain kvs where "parse_members (d # ds) = Some (kvs, r)"
          by (auto simp del: parse_simps_del split: option.splits)
        from 2(1) [OF \<open>c = 0x7B\<close> Cons False this] l show ?thesis by simp
      qed
    qed
  next
    case nb: False
    show ?thesis
    proof (cases "c = 0x5B")
      case True
      show ?thesis
      proof (cases "skip_ws cs")
        case Nil
        with A True show ?thesis by simp
      next
        case (Cons d ds)
        note l = skip_ws_Cons_length [OF Cons]
        show ?thesis
        proof (cases "d = 0x5D")
          case True
          with A \<open>c = 0x5B\<close> Cons l show ?thesis by (simp del: parse_simps_del)
        next
          case False
          with A \<open>c = 0x5B\<close> Cons obtain vs where "parse_elements (d # ds) = Some (vs, r)"
            by (auto simp del: parse_simps_del split: option.splits)
          from 2(2) [OF nb \<open>c = 0x5B\<close> Cons False this] l show ?thesis by simp
        qed
      qed
    next
      case na: False
      show ?thesis
      proof (cases "c = 0x22")
        case True
        with A obtain s where "parse_string cs = Some (s, r)"
          by (auto simp del: parse_simps_del split: option.splits)
        from parse_string_length [OF this] show ?thesis by simp
      next
        case False
        from A nb na False consider "r = drop 3 cs" "3 \<le> length cs" | "r = drop 4 cs" "4 \<le> length cs"
          | x where "parse_number (c # cs) = Some (x, r)"
          by (auto simp del: parse_simps_del simp: js_def prefix_def split: option.splits if_splits)
        then show ?thesis
        proof cases
          case 1
          then show ?thesis by simp
        next
          case 2
          then show ?thesis by simp
        next
          case 3
          from parse_number_length [OF this] show ?thesis .
        qed
      qed
    qed
  qed
next
  case 3
  then show ?case by simp
next
  case (4 q cs)
  note A = 4(3) [unfolded parse_members.simps(2)]
  from A have q: "\<not> q \<noteq> 0x22" by (auto split: if_splits)
  with A obtain k r1 where s: "parse_string cs = Some (k, r1)"
    by (auto simp del: parse_simps_del split: option.splits)
  from A q s obtain colon r2 where c: "skip_ws r1 = colon # r2"
    by (cases "skip_ws r1") (auto simp del: parse_simps_del)
  from A q s c have c2: "\<not> colon \<noteq> 0x3A"
    by (auto simp del: parse_simps_del split: if_splits)
  from A q s c c2 obtain v r3 where v: "parse_value (skip_ws r2) = Some (v, r3)"
    by (auto simp del: parse_simps_del split: option.splits)
  from A q s c c2 v obtain e r4 where e: "skip_ws r3 = e # r4"
    by (cases "skip_ws r3") (auto simp del: parse_simps_del)
  have "length r3 < length (skip_ws r2)"
    by (rule 4(1) [OF q s refl c c2 v])
  then have l: "length r4 < length cs"
    using parse_string_length [OF s] skip_ws_Cons_length [OF c] skip_ws_length [of r2]
      skip_ws_Cons_length [OF e]
    by simp
  show ?case
  proof (cases "e = 0x7D")
    case True
    with A q s c c2 v e l show ?thesis by (simp del: parse_simps_del)
  next
    case False
    with A q s c c2 v e have g: "e = 0x2C \<and> length r4 < length cs"
      by (auto simp del: parse_simps_del split: if_splits)
    with A q s c c2 v e False obtain kvs' where
      m: "parse_members (skip_ws r4) = Some (kvs', r)"
      by (auto simp del: parse_simps_del split: option.splits)
    have "length r < length (skip_ws r4)"
      by (rule 4(2) [OF q s refl c c2 v refl e False g m])
    then show ?thesis using l skip_ws_length [of r4] by simp
  qed
next
  case (5 cs)
  note A = 5(3) [unfolded parse_elements.simps [of cs]]
  from A obtain v r1 where v: "parse_value cs = Some (v, r1)"
    by (auto simp del: parse_simps_del split: option.splits)
  from A v obtain e r2 where e: "skip_ws r1 = e # r2"
    by (cases "skip_ws r1") (auto simp del: parse_simps_del)
  have l: "length r2 < length cs"
    using 5(1) [OF v] skip_ws_Cons_length [OF e] by simp
  show ?case
  proof (cases "e = 0x5D")
    case True
    with A v e l show ?thesis by (simp del: parse_simps_del)
  next
    case False
    with A v e have g: "e = 0x2C \<and> length r2 < length cs"
      by (auto simp del: parse_simps_del split: if_splits)
    with A v e False obtain vs' where m: "parse_elements (skip_ws r2) = Some (vs', r)"
      by (auto simp del: parse_simps_del split: option.splits)
    have "length r < length (skip_ws r2)"
      by (rule 5(2) [OF v refl e False g m])
    then show ?thesis using l skip_ws_length [of r2] by simp
  qed
qed

lemma parse_members_guard:
  assumes "parse_string cs = Some (k, r1)" and "skip_ws r1 = colon # r2"
    and "parse_value (skip_ws r2) = Some (v, r3)" and "skip_ws r3 = e # r4"
  shows "length r4 < length cs"
  using parse_string_length [OF assms(1)] skip_ws_Cons_length [OF assms(2)]
    skip_ws_length [of r2] parse_lengths(1) [OF assms(3)] skip_ws_Cons_length [OF assms(4)]
  by simp

lemma parse_elements_guard:
  assumes "parse_value cs = Some (v, r1)" and "skip_ws r1 = e # r2"
  shows "length r2 < length cs"
  using parse_lengths(1) [OF assms(1)] skip_ws_Cons_length [OF assms(2)] by simp


section \<open>Facts about the response parser\<close>


lemma json_candidate_no_match:
  assumes "0x7B \<notin> set reply \<or> 0x7D \<notin> set reply"
  shows "json_candidate reply = trim (replace_fences reply)"
proof -
  let ?t = "trim (replace_fences reply)"
  have sub: "set ?t \<subseteq> set reply"
    using set_trim [of "replace_fences reply"] set_replace_fences [of reply] by blast
  have "match_braces cs = None" if "0x7D \<notin> set cs" for cs
    using that by (induction cs) (auto simp: greedy_to_brace_none)
  with assms sub match_braces_none_no_open [of ?t] have "match_braces ?t = None" by blast
  then show ?thesis by (simp add: json_candidate_def)
qed


text \<open>
  When no \<open>{\<close> stands before an object and no \<open>}\<close> behind it, the candidate is that
  object.
\<close>

lemma json_candidate_span:
  assumes "trim (replace_fences reply) = pre @ 0x7B # mid @ 0x7D # post"
    and "0x7B \<notin> set pre" and "0x7D \<notin> set post"
  shows "json_candidate reply = 0x7B # mid @ [0x7D]"
  using match_braces_span [OF assms(2,3), of mid]
  by (simp add: json_candidate_def assms(1) del: match_braces.simps)

lemma json_candidate_scenario:
  "json_candidate (js ''text before {\"a\":1} text after'') = js ''{\"a\":1}''"
  by code_simp












section \<open>Facts about the text extraction\<close>

lemma extract_pages_eq:
  assumes "\<forall>n. pageNum \<le> n \<and> n \<le> min (numPages pdf) 3 \<longrightarrow> getPage pdf n = Inr (items n)"
  shows "extract_pages pdf pageNum fullText =
           Inr (fullText @ concat (map (\<lambda>n. join (js '' '') (items n) @ js ''\<newline>\<newline>'')
                                     [pageNum..<Suc (min (numPages pdf) 3)]))"
  using assms
proof (induction pdf pageNum fullText rule: extract_pages.induct)
  case (1 pdf pageNum fullText)
  show ?case
  proof (cases "pageNum \<le> min (numPages pdf) 3")
    case True
    have g: "getPage pdf pageNum = Inr (items pageNum)" using 1(2) True by simp
    have "\<forall>n. pageNum + 1 \<le> n \<and> n \<le> min (numPages pdf) 3 \<longrightarrow> getPage pdf n = Inr (items n)"
      using 1(2) by simp
    moreover have "[pageNum..<Suc (min (numPages pdf) 3)]
                     = pageNum # [pageNum + 1..<Suc (min (numPages pdf) 3)]"
      using upt_conv_Cons [OF le_imp_less_Suc [OF True]] by simp
    ultimately show ?thesis
      using 1(1) [OF True g] True g
      by (subst extract_pages.simps) (simp del: upt_Suc)
  next
    case False
    have e: "extract_pages pdf pageNum fullText = Inr fullText"
      by (subst extract_pages.simps) (simp only: False if_False)
    have "[pageNum..<Suc (min (numPages pdf) 3)] = []"
      using False by (intro upt_conv_Nil) linarith
    then show ?thesis by (simp only: e list.map concat.simps append_Nil2)
  qed
qed

lemma extractTextFromPDF_pages:
  assumes "getDocument sv pdfBuffer = Inr pdf"
    and "\<forall>n. 1 \<le> n \<and> n \<le> min (numPages pdf) 3 \<longrightarrow> getPage pdf n = Inr (items n)"
  shows "extractTextFromPDF sv pdfBuffer =
           Inr (trim (concat (map (\<lambda>n. join (js '' '') (items n) @ js ''\<newline>\<newline>'')
                                [1..<Suc (min (numPages pdf) 3)])))"
  using extract_pages_eq [OF assms(2), of "[]"] assms(1)
  by (simp add: extractTextFromPDF_def del: upt_Suc)

lemma message_generateContent: "message (sv\<lparr>generateContent := g\<rparr>) e = message sv e"
  by (cases e) simp_all

lemma message_getDocument: "message (sv\<lparr>getDocument := d\<rparr>) e = message sv e"
  by (cases e) simp_all

lemma extractTextFromPDF_generateContent:
  "extractTextFromPDF (sv\<lparr>generateContent := g\<rparr>) pdfBuffer = extractTextFromPDF sv pdfBuffer"
  by (simp add: extractTextFromPDF_def message_generateContent cong: sum.case_cong)

lemma processWithGemini_generateContent:
  assumes "g (js ''gemini-1.5-flash'') [Text (prompt_text extractedText)]
             = generateContent sv (js ''gemini-1.5-flash'') [Text (prompt_text extractedText)]"
  shows "processWithGemini (sv\<lparr>generateContent := g\<rparr>) extractedText
           = processWithGemini sv extractedText"
  by (simp add: processWithGemini_def assms message_generateContent cong: sum.case_cong)

lemma processWithGemini_getDocument:
  "processWithGemini (sv\<lparr>getDocument := d\<rparr>) extractedText = processWithGemini sv extractedText"
  by (simp add: processWithGemini_def message_getDocument cong: sum.case_cong)

lemma post_extract_data_backend:
  assumes "\<And>extractedText.
             extractTextFromPDF sv (buffer f) = Inr extractedText \<Longrightarrow> 50 \<le> length extractedText \<Longrightarrow>
             g (js ''gemini-1.5-flash'') [Text (prompt_text extractedText)]
               = generateContent sv (js ''gemini-1.5-flash'') [Text (prompt_text extractedText)]"
  shows "post_extract_data (sv\<lparr>generateContent := g\<rparr>) (Some f) = post_extract_data sv (Some f)"
proof (cases "extractTextFromPDF sv (buffer f)")
  case (Inl e)
  then show ?thesis
    by (simp add: post_extract_data_def extractTextFromPDF_generateContent message_generateContent
          cong: sum.case_cong)
next
  case (Inr extractedText)
  show ?thesis
  proof (cases "50 \<le> length extractedText")
    case True
    from processWithGemini_generateContent [of g extractedText sv, OF assms [OF Inr True]] Inr True
    show ?thesis
      by (simp add: post_extract_data_def extractTextFromPDF_generateContent message_generateContent
            cong: sum.case_cong)
  next
    case False
    with Inr show ?thesis
      by (simp add: post_extract_data_def extractTextFromPDF_generateContent message_generateContent
            cong: sum.case_cong)
  qed
qed

lemma post_extract_data_document:
  assumes "extractTextFromPDF (sv\<lparr>getDocument := d\<rparr>) (buffer f) = extractTextFromPDF sv (buffer f)"
  shows "post_extract_data (sv\<lparr>getDocument := d\<rparr>) (Some f) = post_extract_data sv (Some f)"
  by (simp add: post_extract_data_def assms processWithGemini_getDocument message_getDocument
        cong: sum.case_cong option.case_cong if_cong)

section \<open>Facts about the taxonomy\<close>

lemma CATEGORIAS_DESPESAS_length: "length CATEGORIAS_DESPESAS = 9"
  by (simp add: CATEGORIAS_DESPESAS_def)

lemma examples_keys: "map fst examples = CATEGORIAS_DESPESAS"
  by (simp add: examples_def CATEGORIAS_DESPESAS_def)

lemma get_categories_listing:
  "map name (categories get_categories) = CATEGORIAS_DESPESAS"
  "map id (categories get_categories) = [1..<10]"
  "success get_categories"
  by (simp_all add: get_categories_def CATEGORIAS_DESPESAS_def upt_rec)

lemma getCategoryExamples_unknown:
  assumes "category \<notin> set CATEGORIAS_DESPESAS" and "category \<notin> set Object_prototype"
  shows "getCategoryExamples category = StringArray []"
proof -
  have "category \<notin> fst ` set examples"
    using assms(1) examples_keys by (metis set_map)
  then have "map_of examples category = None" by (simp add: map_of_eq_None_iff)
  with assms(2) show ?thesis by (simp add: getCategoryExamples_def)
qed

lemma getCategoryExamples_member:
  assumes "category \<in> set CATEGORIAS_DESPESAS"
  shows "\<exists>xs. getCategoryExamples category = StringArray xs \<and> xs \<noteq> []"
  using assms by (auto simp: getCategoryExamples_def examples_def CATEGORIAS_DESPESAS_def)

section \<open>The claims\<close>

subsection \<open>C1: the expense category is not checked against the taxonomy\<close>




subsection \<open>C2: the scenario reply is returned without normalisation\<close>

text \<open>
  Claim C2 says that for the fenced scenario reply the record has
  \<open>numero_nota_fiscal = "000207590"\<close> and \<open>valor_total = 3449.00\<close>. The code returns what
  the backend wrote: neither holds.
\<close>

theorem C2_counterexample:
  "\<not> (case parse_response_text
             (js ''```json\<newline>{\"numero_nota_fiscal\":\"000.207.590\",\"valor_total\":\"3.449,00\"}\<newline>```'') of
         Inl e \<Rightarrow> False
       | Inr v \<Rightarrow>
           get_field v (js ''numero_nota_fiscal'') = Some (JString (js ''000207590''))
           \<and> get_field v (js ''valor_total'') = Some (JNumber 3449))"
  by code_simp

text \<open>
  Claim C2 as the code has it: for the scenario reply the record has
  \<open>numero_nota_fiscal\<close> equal to the string \<open>000.207.590\<close> and \<open>valor_total\<close> equal to the
  string \<open>3.449,00\<close>, both as sent.
\<close>

theorem C2_scenario_record:
  "parse_response_text
     (js ''```json\<newline>{\"numero_nota_fiscal\":\"000.207.590\",\"valor_total\":\"3.449,00\"}\<newline>```'')
   = Inr (JObject
       [(js ''numero_nota_fiscal'', JString (js ''000.207.590'')),
        (js ''valor_total'', JString (js ''3.449,00''))])"
  by code_simp

subsection \<open>C3: when the parser fails\<close>




subsection \<open>C4: no default for the installment count\<close>




subsection \<open>C5: the candidate runs on to the last \<open>}\<close>\<close>

text \<open>
  Claim C5 says that the candidate payload is the first balanced brace-delimited
  substring of the reply, also when the surrounding text or a later object holds more
  braces. The code sets out to hand only the JSON to \<open>JSON.parse\<close> (its comment reads
  \<open>Extrai apenas o JSON da resposta\<close>), and does so when no \<open>{\<close> stands before the
  object and no \<open>}\<close> behind it (\<open>json_candidate_span\<close>), as in the reply
  \<open>text before {"a":1} text after\<close> (\<open>json_candidate_scenario\<close>). But the regular
  expression is greedy and balances nothing: in the reply
  \<open>text before {"a":1} text after {"b":2}\<close> the candidate runs on to the end of the
  second object; it is not the object \<open>{"a":1}\<close>, which \<open>JSON.parse\<close> accepts, but a
  text that \<open>JSON.parse\<close> rejects, and the parser fails.
\<close>

theorem C5_candidate_overruns_first_object:
  "json_candidate (js ''text before {\"a\":1} text after {\"b\":2}'')
     = js ''{\"a\":1} text after {\"b\":2}''
   \<and> json_candidate (js ''text before {\"a\":1} text after {\"b\":2}'') \<noteq> js ''{\"a\":1}''
   \<and> JSON_parse (js ''{\"a\":1}'') = Some (JObject [(js ''a'', JNumber 1)])
   \<and> JSON_parse (js ''{\"a\":1} text after {\"b\":2}'') = None
   \<and> parse_response_text (js ''text before {\"a\":1} text after {\"b\":2}'')
       = Inl (SyntaxError (js ''{\"a\":1} text after {\"b\":2}''))"
  by code_simp

subsection \<open>C6: no field normaliser runs\<close>




subsection \<open>C7: when the upload handler refuses a request\<close>

text \<open>
  Claim C7 says that building the request fails if and only if the document payload is
  empty, with a client-side error. In the text variant a document that is not empty is
  refused with status 500 when the text taken from it has fewer than 50 characters.
\<close>

theorem C7_counterexample:
  "buffer \<lparr>originalname = js ''nota.pdf'', file_size = 4, buffer = [0x25, 0x50, 0x44, 0x46]\<rparr> \<noteq> []
   \<and> status (post_extract_data
         (stub_services (Some (js ''key'')) (stub_pdf [[js ''NF-e'', js ''000.207.590'']]) (js ''{}''))
         (Some \<lparr>originalname = js ''nota.pdf'', file_size = 4, buffer = [0x25, 0x50, 0x44, 0x46]\<rparr>))
       = 500"
  by code_simp

text \<open>
  Claim C7 as the code has it. The handler answers 400 exactly when the request carries
  no file. With a file, it answers 500 when \<open>GEMINI_API_KEY\<close> is unset or empty, when the
  text extraction fails, and when the extracted text has fewer than 50 characters. Only
  otherwise is the request built from the text and sent, and the status is 200 or 500 as
  \<open>processWithGemini\<close> succeeds or fails.
\<close>

theorem C7_upload_handler_outcomes:
  "(status (post_extract_data sv upload) = 400 \<longleftrightarrow> upload = None)
   \<and> (upload = Some f \<and> (GEMINI_API_KEY sv = None \<or> GEMINI_API_KEY sv = Some []) \<longrightarrow>
        status (post_extract_data sv upload) = 500)
   \<and> (upload = Some f \<and> GEMINI_API_KEY sv = Some key \<and> key \<noteq> []
        \<and> extractTextFromPDF sv (buffer f) = Inl e \<longrightarrow>
        status (post_extract_data sv upload) = 500)
   \<and> (upload = Some f \<and> GEMINI_API_KEY sv = Some key \<and> key \<noteq> []
        \<and> extractTextFromPDF sv (buffer f) = Inr extractedText \<and> length extractedText < 50 \<longrightarrow>
        status (post_extract_data sv upload) = 500)
   \<and> (upload = Some f \<and> GEMINI_API_KEY sv = Some key \<and> key \<noteq> []
        \<and> extractTextFromPDF sv (buffer f) = Inr extractedText \<and> 50 \<le> length extractedText \<longrightarrow>
        status (post_extract_data sv upload)
          = (case processWithGemini sv extractedText of Inl e' \<Rightarrow> 500 | Inr extractedData \<Rightarrow> 200))"
proof (intro conjI impI)
  show "status (post_extract_data sv upload) = 400 \<longleftrightarrow> upload = None"
    by (auto simp: post_extract_data_def split: option.splits sum.splits prod.splits)
next
  assume "upload = Some f \<and> (GEMINI_API_KEY sv = None \<or> GEMINI_API_KEY sv = Some [])"
  then show "status (post_extract_data sv upload) = 500"
    by (auto simp: post_extract_data_def)
next
  assume "upload = Some f \<and> GEMINI_API_KEY sv = Some key \<and> key \<noteq> []
        \<and> extractTextFromPDF sv (buffer f) = Inl e"
  then show "status (post_extract_data sv upload) = 500"
    by (simp add: post_extract_data_def)
next
  assume "upload = Some f \<and> GEMINI_API_KEY sv = Some key \<and> key \<noteq> []
        \<and> extractTextFromPDF sv (buffer f) = Inr extractedText \<and> length extractedText < 50"
  then show "status (post_extract_data sv upload) = 500"
    by (simp add: post_extract_data_def)
next
  assume "upload = Some f \<and> GEMINI_API_KEY sv = Some key \<and> key \<noteq> []
        \<and> extractTextFromPDF sv (buffer f) = Inr extractedText \<and> 50 \<le> length extractedText"
  then show "status (post_extract_data sv upload)
          = (case processWithGemini sv extractedText of Inl e' \<Rightarrow> 500 | Inr extractedData \<Rightarrow> 200)"
    by (auto simp: post_extract_data_def split: sum.splits)
qed

text \<open>
  Instances: no file; a file and no key; a file whose text has 16 characters; a file
  whose first page cannot be read; a file whose text has 62 characters and a backend
  that answers \<open>{}\<close>.
\<close>

theorem C7_upload_handler_outcomes_witness:
  "status (post_extract_data (stub_services (Some (js ''key'')) (stub_pdf []) (js ''{}'')) None) = 400
   \<and> status (post_extract_data (stub_services None (stub_pdf []) (js ''{}''))
         (Some \<lparr>originalname = js ''nota.pdf'', file_size = 4, buffer = [0x25, 0x50, 0x44, 0x46]\<rparr>))
       = 500
   \<and> extractTextFromPDF
         (stub_services (Some (js ''key'')) (stub_pdf [[js ''NF-e'', js ''000.207.590'']]) (js ''{}''))
         [0x25, 0x50, 0x44, 0x46] = Inr (js ''NF-e 000.207.590'')
   \<and> status (post_extract_data
         (stub_services (Some (js ''key'')) (stub_pdf [[js ''NF-e'', js ''000.207.590'']]) (js ''{}''))
         (Some \<lparr>originalname = js ''nota.pdf'', file_size = 4, buffer = [0x25, 0x50, 0x44, 0x46]\<rparr>))
       = 500
   \<and> extractTextFromPDF
         (stub_services (Some (js ''key''))
            \<lparr>numPages = 1, getPage = (\<lambda>n. Inl (Error (js ''Invalid PDF structure.'')))\<rparr> (js ''{}''))
         [0x25, 0x50, 0x44, 0x46]
       = Inl (Error (js ''Falha na extra'' @ [0xE7, 0xE3]
                       @ js ''o de texto do PDF: Invalid PDF structure.''))
   \<and> status (post_extract_data
         (stub_services (Some (js ''key''))
            \<lparr>numPages = 1, getPage = (\<lambda>n. Inl (Error (js ''Invalid PDF structure.'')))\<rparr> (js ''{}''))
         (Some \<lparr>originalname = js ''nota.pdf'', file_size = 4, buffer = [0x25, 0x50, 0x44, 0x46]\<rparr>))
       = 500
   \<and> extractTextFromPDF
         (stub_services (Some (js ''key''))
            (stub_pdf [[js ''DANFE Documento Auxiliar da Nota Fiscal Eletronica'', js ''000.207.590'']])
            (js ''{}''))
         [0x25, 0x50, 0x44, 0x46]
       = Inr (js ''DANFE Documento Auxiliar da Nota Fiscal Eletronica 000.207.590'')
   \<and> status (post_extract_data
         (stub_services (Some (js ''key''))
            (stub_pdf [[js ''DANFE Documento Auxiliar da Nota Fiscal Eletronica'', js ''000.207.590'']])
            (js ''{}''))
         (Some \<lparr>originalname = js ''nota.pdf'', file_size = 4, buffer = [0x25, 0x50, 0x44, 0x46]\<rparr>))
       = 200"
proof -
  let ?f = "\<lparr>originalname = js ''nota.pdf'', file_size = 4, buffer = [0x25, 0x50, 0x44, 0x46]\<rparr>"
  let ?s1 = "stub_services (Some (js ''key'')) (stub_pdf []) (js ''{}'')"
  let ?s2 = "stub_services None (stub_pdf []) (js ''{}'')"
  let ?s3 = "stub_services (Some (js ''key'')) (stub_pdf [[js ''NF-e'', js ''000.207.590'']]) (js ''{}'')"
  let ?s4 = "stub_services (Some (js ''key''))
            (stub_pdf [[js ''DANFE Documento Auxiliar da Nota Fiscal Eletronica'', js ''000.207.590'']])
            (js ''{}'')"
  let ?short = "js ''NF-e 000.207.590''"
  let ?long = "js ''DANFE Documento Auxiliar da Nota Fiscal Eletronica 000.207.590''"
  have c1: "status (post_extract_data ?s1 None) = 400"
    using C7_upload_handler_outcomes [where sv = ?s1 and upload = None] by simp
  have k2: "GEMINI_API_KEY ?s2 = None" by (simp add: stub_services_def)
  have c2: "status (post_extract_data ?s2 (Some ?f)) = 500"
    using C7_upload_handler_outcomes [where sv = ?s2 and upload = "Some ?f" and f = ?f] k2 by blast
  have k3: "GEMINI_API_KEY ?s3 = Some (js ''key'')" "js ''key'' \<noteq> []"
    by (simp_all add: stub_services_def js_def)
  have t3: "extractTextFromPDF ?s3 (buffer ?f) = Inr ?short" by code_simp
  have l3: "length ?short < 50" by (simp add: js_def)
  have c3: "status (post_extract_data ?s3 (Some ?f)) = 500"
    using C7_upload_handler_outcomes
      [where sv = ?s3 and upload = "Some ?f" and f = ?f and key = "js ''key''"
         and extractedText = ?short]
      k3 t3 l3 by blast
  have k4: "GEMINI_API_KEY ?s4 = Some (js ''key'')"
    by (simp add: stub_services_def)
  have t4: "extractTextFromPDF ?s4 (buffer ?f) = Inr ?long" by code_simp
  have l4: "50 \<le> length ?long" by (simp add: js_def)
  have p4: "processWithGemini ?s4 ?long = Inr (JObject [])" by code_simp
  have "status (post_extract_data ?s4 (Some ?f))
          = (case processWithGemini ?s4 ?long of Inl e' \<Rightarrow> 500 | Inr extractedData \<Rightarrow> 200)"
    using C7_upload_handler_outcomes
      [where sv = ?s4 and upload = "Some ?f" and f = ?f and key = "js ''key''"
         and extractedText = ?long]
      k4 k3(2) t4 l4 by blast
  then have c4: "status (post_extract_data ?s4 (Some ?f)) = 200" by (simp only: p4 sum.case)
  let ?s5 = "stub_services (Some (js ''key''))
            \<lparr>numPages = 1, getPage = (\<lambda>n. Inl (Error (js ''Invalid PDF structure.'')))\<rparr> (js ''{}'')"
  let ?err = "Error (js ''Falha na extra'' @ [0xE7, 0xE3]
                       @ js ''o de texto do PDF: Invalid PDF structure.'')"
  have k5: "GEMINI_API_KEY ?s5 = Some (js ''key'')"
    by (simp add: stub_services_def)
  have t5: "extractTextFromPDF ?s5 (buffer ?f) = Inl ?err"
    by (simp add: extractTextFromPDF_def stub_services_def extract_pages.simps js_def)
  have c5: "status (post_extract_data ?s5 (Some ?f)) = 500"
    using C7_upload_handler_outcomes
      [where sv = ?s5 and upload = "Some ?f" and f = ?f and key = "js ''key''" and e = ?err]
      k5 k3(2) t5 by blast
  have b: "buffer ?f = [0x25, 0x50, 0x44, 0x46]" by simp
  from c1 c2 t3 c3 t5 c5 t4 c4 show ?thesis unfolding b by blast
qed

subsection \<open>C8: the taxonomy operations\<close>

text \<open>
  Claim C8 says that the taxonomy operations never fail, that the listing gives each of
  the 9 categories the 1-based index of its position as id, and that \<open>examplesFor\<close> of
  any string outside the taxonomy is the empty set. The first two hold
  (\<open>CATEGORIAS_DESPESAS_length\<close>, \<open>get_categories_listing\<close>), and so does the third for
  every string that names no property of \<open>Object.prototype\<close>
  (\<open>getCategoryExamples_unknown\<close>). For \<open>toString\<close> the read \<open>examples[category]\<close> finds
  the inherited function, which is truthy, and \<open>getCategoryExamples\<close> returns it in
  place of the empty array.
\<close>

theorem C8_getCategoryExamples_inherited:
  "js ''toString'' \<notin> set CATEGORIAS_DESPESAS
   \<and> getCategoryExamples (js ''toString'') = Inherited (js ''toString'')
   \<and> getCategoryExamples (js ''toString'') \<noteq> StringArray []"
  by code_simp

subsection \<open>C9: the text of at most three pages\<close>

text \<open>
  Claim C9: in the text variant the text submitted to the backend is made of the texts
  of the pages 1 to \<open>min(numPages, 3)\<close> and of nothing else. Let the document of the
  upload open and these pages be readable, and let \<open>extractedText\<close> be their texts (the
  items of a page joined by a blank), each followed by two line feeds, concatenated in
  order and trimmed. Then

  \<^item> \<open>extractTextFromPDF\<close> returns \<open>extractedText\<close>;

  \<^item> when the key is set and the text has at least 50 characters, the handler calls the
    backend with the prompt written around \<open>extractedText\<close>, and its response follows
    the answer to that request: status 200 with the parsed record as \<open>data\<close>, or
    status 500;

  \<^item> the response depends on the backend through the answer to that one request only,
    and on no answer at all when the text is shorter;

  \<^item> the response is the same for every document that has the same pages up to the
    third: what stands on later pages contributes nothing.
\<close>

theorem C9_text_of_first_three_pages:
  assumes "getDocument sv (buffer f) = Inr pdf"
    and "\<forall>n. 1 \<le> n \<and> n \<le> min (numPages pdf) 3 \<longrightarrow> getPage pdf n = Inr (items n)"
    and "extractedText =
           trim (concat (map (\<lambda>n. join (js '' '') (items n) @ js ''\<newline>\<newline>'')
                           [1..<Suc (min (numPages pdf) 3)]))"
  shows "extractTextFromPDF sv (buffer f) = Inr extractedText
   \<and> (GEMINI_API_KEY sv = Some key \<and> key \<noteq> [] \<and> 50 \<le> length extractedText \<longrightarrow>
        (case generateContent sv (js ''gemini-1.5-flash'')
                [Text (prompt_text_intro @ extractedText @ prompt_text_instructions
                         @ category_lines @ prompt_text_format)] of
           Inl e \<Rightarrow> status (post_extract_data sv (Some f)) = 500
         | Inr reply \<Rightarrow>
             (case parse_response_text reply of
                Inl e \<Rightarrow> status (post_extract_data sv (Some f)) = 500
              | Inr extractedData \<Rightarrow>
                  status (post_extract_data sv (Some f)) = 200
                  \<and> get_field (body (post_extract_data sv (Some f))) (js ''data'')
                      = Some extractedData)))
   \<and> (\<forall>g. (50 \<le> length extractedText \<longrightarrow>
              g (js ''gemini-1.5-flash'') [Text (prompt_text extractedText)]
                = generateContent sv (js ''gemini-1.5-flash'') [Text (prompt_text extractedText)]) \<longrightarrow>
            post_extract_data (sv\<lparr>generateContent := g\<rparr>) (Some f) = post_extract_data sv (Some f))
   \<and> (\<forall>pdf' :: pdf_document.
          min (numPages pdf') 3 = min (numPages pdf) 3
          \<and> (\<forall>n. 1 \<le> n \<and> n \<le> min (numPages pdf) 3 \<longrightarrow> getPage pdf' n = getPage pdf n) \<longrightarrow>
            post_extract_data (sv\<lparr>getDocument := (\<lambda>pdfBuffer. Inr pdf')\<rparr>) (Some f)
              = post_extract_data sv (Some f))"
proof (intro conjI impI allI)
  show t: "extractTextFromPDF sv (buffer f) = Inr extractedText"
    unfolding assms(3) by (rule extractTextFromPDF_pages [OF assms(1,2)])
  {
    assume k: "GEMINI_API_KEY sv = Some key \<and> key \<noteq> [] \<and> 50 \<le> length extractedText"
    then have ne: "extractedText \<noteq> []" by auto
    from k ne show "case generateContent sv (js ''gemini-1.5-flash'')
                [Text (prompt_text_intro @ extractedText @ prompt_text_instructions
                         @ category_lines @ prompt_text_format)] of
           Inl e \<Rightarrow> status (post_extract_data sv (Some f)) = 500
         | Inr reply \<Rightarrow>
             (case parse_response_text reply of
                Inl e \<Rightarrow> status (post_extract_data sv (Some f)) = 500
              | Inr extractedData \<Rightarrow>
                  status (post_extract_data sv (Some f)) = 200
                  \<and> get_field (body (post_extract_data sv (Some f))) (js ''data'')
                      = Some extractedData)"
      by (simp add: post_extract_data_def t processWithGemini_def prompt_text_def get_field_def
            js_def split: sum.splits)
  }
  {
    fix g
    assume a: "50 \<le> length extractedText \<longrightarrow>
              g (js ''gemini-1.5-flash'') [Text (prompt_text extractedText)]
                = generateContent sv (js ''gemini-1.5-flash'') [Text (prompt_text extractedText)]"
    show "post_extract_data (sv\<lparr>generateContent := g\<rparr>) (Some f) = post_extract_data sv (Some f)"
      using a t by (intro post_extract_data_backend) simp
  }
  {
    fix pdf' :: pdf_document
    assume a: "min (numPages pdf') 3 = min (numPages pdf) 3
              \<and> (\<forall>n. 1 \<le> n \<and> n \<le> min (numPages pdf) 3 \<longrightarrow> getPage pdf' n = getPage pdf n)"
    let ?sv = "sv\<lparr>getDocument := (\<lambda>pdfBuffer. Inr pdf')\<rparr>"
    have d: "getDocument ?sv (buffer f) = Inr pdf'" by simp
    have p: "\<forall>n. 1 \<le> n \<and> n \<le> min (numPages pdf') 3 \<longrightarrow> getPage pdf' n = Inr (items n)"
      using a assms(2) by simp
    have "extractTextFromPDF ?sv (buffer f) = Inr extractedText"
      using extractTextFromPDF_pages [OF d p] a unfolding assms(3) by simp
    with t show "post_extract_data ?sv (Some f) = post_extract_data sv (Some f)"
      by (intro post_extract_data_document) simp
  }
qed

text \<open>
  An instance: a document of four pages and a backend that answers the request built
  from the first three pages with \<open>{}\<close> and refuses every other request. The handler
  answers 200; the fourth page (\<open>Anexo\<close>) leaves no trace, and the document without it
  gets the same response.
\<close>

theorem C9_text_of_first_three_pages_witness:
  "getDocument
     ((stub_services (Some (js ''key''))
         (stub_pdf [[js ''DANFE Documento Auxiliar da Nota Fiscal Eletronica'', js ''NF-e''],
                    [js ''Emitente''], [js ''Total''], [js ''Anexo'']])
         (js ''{}''))
        \<lparr>generateContent := stub_backend (js ''gemini-1.5-flash'')
               [Text (prompt_text
                  (js ''DANFE Documento Auxiliar da Nota Fiscal Eletronica NF-e\<newline>\<newline>Emitente\<newline>\<newline>Total''))]
               (js ''{}'')\<rparr>)
     [0x25, 0x50, 0x44, 0x46]
     = Inr (stub_pdf [[js ''DANFE Documento Auxiliar da Nota Fiscal Eletronica'', js ''NF-e''],
                      [js ''Emitente''], [js ''Total''], [js ''Anexo'']])
   \<and> numPages (stub_pdf [[js ''DANFE Documento Auxiliar da Nota Fiscal Eletronica'', js ''NF-e''],
                          [js ''Emitente''], [js ''Total''], [js ''Anexo'']]) = 4
   \<and> extractTextFromPDF
         ((stub_services (Some (js ''key''))
             (stub_pdf [[js ''DANFE Documento Auxiliar da Nota Fiscal Eletronica'', js ''NF-e''],
                        [js ''Emitente''], [js ''Total''], [js ''Anexo'']])
             (js ''{}''))
            \<lparr>generateContent := stub_backend (js ''gemini-1.5-flash'')
               [Text (prompt_text
                  (js ''DANFE Documento Auxiliar da Nota Fiscal Eletronica NF-e\<newline>\<newline>Emitente\<newline>\<newline>Total''))]
               (js ''{}'')\<rparr>)
         [0x25, 0x50, 0x44, 0x46]
       = Inr (js ''DANFE Documento Auxiliar da Nota Fiscal Eletronica NF-e\<newline>\<newline>Emitente\<newline>\<newline>Total'')
   \<and> 50 \<le> length (js ''DANFE Documento Auxiliar da Nota Fiscal Eletronica NF-e\<newline>\<newline>Emitente\<newline>\<newline>Total'')
   \<and> status (post_extract_data
         ((stub_services (Some (js ''key''))
             (stub_pdf [[js ''DANFE Documento Auxiliar da Nota Fiscal Eletronica'', js ''NF-e''],
                        [js ''Emitente''], [js ''Total''], [js ''Anexo'']])
             (js ''{}''))
            \<lparr>generateContent := stub_backend (js ''gemini-1.5-flash'')
               [Text (prompt_text
                  (js ''DANFE Documento Auxiliar da Nota Fiscal Eletronica NF-e\<newline>\<newline>Emitente\<newline>\<newline>Total''))]
               (js ''{}'')\<rparr>)
         (Some \<lparr>originalname = js ''nota.pdf'', file_size = 4, buffer = [0x25, 0x50, 0x44, 0x46]\<rparr>))
       = 200
   \<and> get_field (body (post_extract_data
         ((stub_services (Some (js ''key''))
             (stub_pdf [[js ''DANFE Documento Auxiliar da Nota Fiscal Eletronica'', js ''NF-e''],
                        [js ''Emitente''], [js ''Total''], [js ''Anexo'']])
             (js ''{}''))
            \<lparr>generateContent := stub_backend (js ''gemini-1.5-flash'')
               [Text (prompt_text
                  (js ''DANFE Documento Auxiliar da Nota Fiscal Eletronica NF-e\<newline>\<newline>Emitente\<newline>\<newline>Total''))]
               (js ''{}'')\<rparr>)
         (Some \<lparr>originalname = js ''nota.pdf'', file_size = 4, buffer = [0x25, 0x50, 0x44, 0x46]\<rparr>)))
       (js ''data'') = Some (JObject [])
   \<and> post_extract_data
         ((stub_services (Some (js ''key''))
             (stub_pdf [[js ''DANFE Documento Auxiliar da Nota Fiscal Eletronica'', js ''NF-e''],
                        [js ''Emitente''], [js ''Total''], [js ''Anexo'']])
             (js ''{}''))
            \<lparr>generateContent := stub_backend (js ''gemini-1.5-flash'')
               [Text (prompt_text
                  (js ''DANFE Documento Auxiliar da Nota Fiscal Eletronica NF-e\<newline>\<newline>Emitente\<newline>\<newline>Total''))]
               (js ''{}'')\<rparr>
            \<lparr>getDocument := (\<lambda>pdfBuffer. Inr
               (stub_pdf [[js ''DANFE Documento Auxiliar da Nota Fiscal Eletronica'', js ''NF-e''],
                          [js ''Emitente''], [js ''Total'']]))\<rparr>)
         (Some \<lparr>originalname = js ''nota.pdf'', file_size = 4, buffer = [0x25, 0x50, 0x44, 0x46]\<rparr>)
       = post_extract_data
         ((stub_services (Some (js ''key''))
             (stub_pdf [[js ''DANFE Documento Auxiliar da Nota Fiscal Eletronica'', js ''NF-e''],
                        [js ''Emitente''], [js ''Total''], [js ''Anexo'']])
             (js ''{}''))
            \<lparr>generateContent := stub_backend (js ''gemini-1.5-flash'')
               [Text (prompt_text
                  (js ''DANFE Documento Auxiliar da Nota Fiscal Eletronica NF-e\<newline>\<newline>Emitente\<newline>\<newline>Total''))]
               (js ''{}'')\<rparr>)
         (Some \<lparr>originalname = js ''nota.pdf'', file_size = 4, buffer = [0x25, 0x50, 0x44, 0x46]\<rparr>)
   \<and> post_extract_data
         (stub_services (Some (js ''key''))
            (stub_pdf [[js ''DANFE Documento Auxiliar da Nota Fiscal Eletronica'', js ''NF-e''],
                       [js ''Emitente''], [js ''Total''], [js ''Anexo'']])
            (js ''{}''))
         (Some \<lparr>originalname = js ''nota.pdf'', file_size = 4, buffer = [0x25, 0x50, 0x44, 0x46]\<rparr>)
       = post_extract_data
         ((stub_services (Some (js ''key''))
             (stub_pdf [[js ''DANFE Documento Auxiliar da Nota Fiscal Eletronica'', js ''NF-e''],
                        [js ''Emitente''], [js ''Total''], [js ''Anexo'']])
             (js ''{}''))
            \<lparr>generateContent := stub_backend (js ''gemini-1.5-flash'')
               [Text (prompt_text
                  (js ''DANFE Documento Auxiliar da Nota Fiscal Eletronica NF-e\<newline>\<newline>Emitente\<newline>\<newline>Total''))]
               (js ''{}'')\<rparr>)
         (Some \<lparr>originalname = js ''nota.pdf'', file_size = 4, buffer = [0x25, 0x50, 0x44, 0x46]\<rparr>)"
proof -
  let ?text = "js ''DANFE Documento Auxiliar da Nota Fiscal Eletronica NF-e\<newline>\<newline>Emitente\<newline>\<newline>Total''"
  let ?three = "[[js ''DANFE Documento Auxiliar da Nota Fiscal Eletronica'', js ''NF-e''],
                 [js ''Emitente''], [js ''Total'']]"
  let ?pages = "[[js ''DANFE Documento Auxiliar da Nota Fiscal Eletronica'', js ''NF-e''],
                 [js ''Emitente''], [js ''Total''], [js ''Anexo'']]"
  let ?g = "stub_backend (js ''gemini-1.5-flash'') [Text (prompt_text ?text)] (js ''{}'')"
  let ?sv = "(stub_services (Some (js ''key'')) (stub_pdf ?pages) (js ''{}''))\<lparr>generateContent := ?g\<rparr>"
  let ?f = "\<lparr>originalname = js ''nota.pdf'', file_size = 4, buffer = [0x25, 0x50, 0x44, 0x46]\<rparr>"
  let ?items = "\<lambda>n. ?pages ! (n - 1)"
  have b: "buffer ?f = [0x25, 0x50, 0x44, 0x46]" by simp
  have h1: "getDocument ?sv (buffer ?f) = Inr (stub_pdf ?pages)"
    by (simp add: stub_services_def)
  have n: "numPages (stub_pdf ?pages) = 4" by (simp add: stub_pdf_def)
  have h2: "\<forall>n. 1 \<le> n \<and> n \<le> min (numPages (stub_pdf ?pages)) 3 \<longrightarrow>
              getPage (stub_pdf ?pages) n = Inr (?items n)"
    by (simp add: stub_pdf_def)
  have u: "[1..<Suc (min (numPages (stub_pdf ?pages)) 3)] = [1, 2, 3]"
    by (simp add: n upt_rec)
  have h3: "?text = trim (concat (map (\<lambda>n. join (js '' '') (?items n) @ js ''\<newline>\<newline>'')
                                    [1..<Suc (min (numPages (stub_pdf ?pages)) 3)]))"
    unfolding u by (simp add: js_def trim_def js_whitespace_def)
  note inst = C9_text_of_first_three_pages [OF h1 h2 h3, where key = "js ''key''"]
  have k: "GEMINI_API_KEY ?sv = Some (js ''key'')" "js ''key'' \<noteq> []"
    by (simp_all add: stub_services_def js_def)
  have l: "50 \<le> length ?text" by (simp add: js_def)
  have g: "generateContent ?sv (js ''gemini-1.5-flash'')
             [Text (prompt_text_intro @ ?text @ prompt_text_instructions @ category_lines
                      @ prompt_text_format)] = Inr (js ''{}'')"
    by (simp add: prompt_text_def stub_backend_def)
  have p: "parse_response_text (js ''{}'') = Inr (JObject [])" by code_simp
  from inst [THEN conjunct1] have c1: "extractTextFromPDF ?sv (buffer ?f) = Inr ?text" .
  from inst [THEN conjunct2, THEN conjunct1] k l
  have c2: "status (post_extract_data ?sv (Some ?f)) = 200
            \<and> get_field (body (post_extract_data ?sv (Some ?f))) (js ''data'') = Some (JObject [])"
    by (simp only: g p sum.case simp_thms)
  let ?pdf3 = "stub_pdf ?three"
  have m: "min (numPages ?pdf3) 3 = min (numPages (stub_pdf ?pages)) 3"
    by (simp add: stub_pdf_def)
  have q: "\<forall>n. 1 \<le> n \<and> n \<le> min (numPages (stub_pdf ?pages)) 3 \<longrightarrow>
             getPage ?pdf3 n = getPage (stub_pdf ?pages) n"
    by (auto simp: stub_pdf_def nth_Cons split: nat.splits)
  from inst [THEN conjunct2, THEN conjunct2, THEN conjunct2, rule_format, of ?pdf3] m q
  have c3: "post_extract_data (?sv\<lparr>getDocument := (\<lambda>pdfBuffer. Inr ?pdf3)\<rparr>) (Some ?f)
              = post_extract_data ?sv (Some ?f)"
    by blast
  have a: "(\<lambda>model parts. Inr (js ''{}'')) (js ''gemini-1.5-flash'') [Text (prompt_text ?text)]
             = generateContent ?sv (js ''gemini-1.5-flash'') [Text (prompt_text ?text)]"
    by (simp add: stub_backend_def)
  have s: "?sv\<lparr>generateContent := (\<lambda>model parts. Inr (js ''{}''))\<rparr>
             = stub_services (Some (js ''key'')) (stub_pdf ?pages) (js ''{}'')"
    by (simp add: stub_services_def)
  from inst [THEN conjunct2, THEN conjunct2, THEN conjunct1, rule_format,
             of "\<lambda>model parts. Inr (js ''{}'')"] a
  have c4: "post_extract_data (stub_services (Some (js ''key'')) (stub_pdf ?pages) (js ''{}'')) (Some ?f)
              = post_extract_data ?sv (Some ?f)"
    unfolding s by blast
  from h1 n c1 l c2 c3 c4 show ?thesis unfolding b by blast
qed

subsection \<open>C10: fence markers are deleted everywhere\<close>



end
